theory Spec2Isabelle
  imports Complex_Main "HOL-Library.Word" "HOL-Library.Log_Nat"
begin

section \<open>The audio recorder of creek-backend (audio/recorder.py)\<close>

text \<open>
  \<^verbatim>\<open>AudioRecorder\<close> has three threads of control: the caller of
  \<^verbatim>\<open>start_recording\<close>, \<^verbatim>\<open>stop_recording\<close> and \<^verbatim>\<open>record\<close>; the audio driver, which
  calls \<^verbatim>\<open>_audio_callback\<close> while the input stream runs; and the thread that runs
  \<^verbatim>\<open>_process_audio\<close>. The object is a record, every method a function from the
  record to the updated record, and the two background threads are scheduled by an
  explicit list of events. The caller is one thread: calls of the three methods do not
  overlap. An exception is a value of \<open>exn\<close>; a method that can raise returns
  \<open>exn + 'a\<close> beside the state it leaves.
\<close>

subsection \<open>Data\<close>

text \<open>
  A chunk is the \<^verbatim>\<open>indata.copy()\<close> of one driver call: an array of shape
  (frames, channels) of float32 samples. A sample is the rational number that the
  (finite) float32 denotes.
\<close>

type_synonym sample = rat
type_synonym chunk = "sample list list"

datatype exn =
    AlreadyRecording    \<comment> \<open>\<^verbatim>\<open>RuntimeError("Recording is already in progress")\<close>\<close>
  | NotRecording        \<comment> \<open>\<^verbatim>\<open>RuntimeError("No recording in progress")\<close>\<close>
  | AttributeError      \<comment> \<open>reading \<^verbatim>\<open>self.stream\<close> or \<^verbatim>\<open>self.output_file\<close> before it was ever set\<close>
  | ZeroDivisionError
  | QueueEmpty          \<comment> \<open>\<^verbatim>\<open>queue.Empty\<close>\<close>
  | KeyboardInterrupt
  | PortAudioError      \<comment> \<open>\<^verbatim>\<open>sounddevice\<close>: a stream cannot be opened or started\<close>
  | OSError             \<comment> \<open>\<^verbatim>\<open>wave\<close>: the file cannot be written\<close>
  | OtherError string

text \<open>The states of a \<^verbatim>\<open>sounddevice.InputStream\<close> object.\<close>

datatype stream_state = Created | Started | Closed

text \<open>
  Where the thread of \<^verbatim>\<open>_process_audio\<close> stands: before the test of the
  \<^verbatim>\<open>while\<close>, inside \<^verbatim>\<open>audio_queue.get(timeout=0.5)\<close>, returned, or ended by an
  exception that left the function.
\<close>

datatype thread_state = AtWhile | AtGet | Finished | Died exn

text \<open>
  A progress callback is called with \<open>(duration, len(data))\<close>; it returns
  (\<open>None\<close>) or raises (\<open>Some e\<close>).
\<close>

type_synonym progress_callback = "rat \<Rightarrow> nat \<Rightarrow> exn option"

text \<open>What \<^verbatim>\<open>_save_wav\<close> hands to the \<^verbatim>\<open>wave\<close> module.\<close>

record wav_file =
  nchannels :: int
  sampwidth :: int
  framerate :: int
  pcm :: "16 word list"

text \<open>
  The fields of the object, as \<^verbatim>\<open>__init__\<close> and \<^verbatim>\<open>start_recording\<close> create them.
  \<open>stream\<close> and \<open>output_file\<close> are attributes that \<^verbatim>\<open>__init__\<close> does not set:
  \<open>None\<close> is the missing attribute. The last two fields are the world outside the
  object: the calls the progress callback has received, in order, and the files written.
\<close>

record recorder =
  sample_rate :: int
  channels :: int
  chunk_size :: int
  max_duration :: rat
  recording :: bool
  audio_queue :: "chunk list"
  frames :: "chunk list"
  start_time :: "rat option"
  processing_thread :: "thread_state option"
  callback :: "progress_callback option"
  output_dir :: string
  stream :: "stream_state option"
  output_file :: "string option"
  callback_calls :: "(rat \<times> nat) list"
  files :: "string \<rightharpoonup> wav_file"

record config =
  cfg_sample_rate :: int
  cfg_channels :: int
  cfg_chunk_size :: int
  cfg_max_duration_minutes :: rat
  cfg_save_directory :: string

text \<open>
  \<^verbatim>\<open>__init__\<close>: \<^verbatim>\<open>x or config.get(...)\<close> takes the configured value when the argument is
  \<^verbatim>\<open>None\<close> or 0. The world (\<open>fs\<close>) is whatever it is when the recorder is made.
\<close>

definition py_or :: "int option \<Rightarrow> int \<Rightarrow> int" where
  "py_or a d = (case a of None \<Rightarrow> d | Some v \<Rightarrow> if v = 0 then d else v)"

definition init :: "config \<Rightarrow> int option \<Rightarrow> int option \<Rightarrow> int option \<Rightarrow>
    (string \<rightharpoonup> wav_file) \<Rightarrow> recorder" where
  "init cfg sr ch cs fs =
     \<lparr> sample_rate = py_or sr (cfg_sample_rate cfg),
       channels = py_or ch (cfg_channels cfg),
       chunk_size = py_or cs (cfg_chunk_size cfg),
       max_duration = cfg_max_duration_minutes cfg * 60,
       recording = False,
       audio_queue = [],
       frames = [],
       start_time = None,
       processing_thread = None,
       callback = None,
       output_dir = cfg_save_directory cfg,
       stream = None,
       output_file = None,
       callback_calls = [],
       files = fs \<rparr>"

subsection \<open>The driver callback and the drain thread\<close>

text \<open>
  \<^verbatim>\<open>_audio_callback\<close>: the status is printed when set, and a copy of the block is put
  on the queue. Printing changes nothing that is modelled.
\<close>

definition audio_callback :: "recorder \<Rightarrow> chunk \<Rightarrow> bool \<Rightarrow> recorder" where
  "audio_callback s indata status = s\<lparr>audio_queue := audio_queue s @ [indata]\<rparr>"

text \<open>
  The body of the loop of \<^verbatim>\<open>_process_audio\<close>, entered at \<^verbatim>\<open>get\<close>. With an empty
  queue \<^verbatim>\<open>get\<close> raises \<^verbatim>\<open>queue.Empty\<close> after the timeout and the loop continues.
  Otherwise the head of the queue is appended to \<open>frames\<close>; when a callback is set the
  duration is computed (a division, which raises when \<open>sample_rate\<close> is 0) and the
  callback is called. The \<^verbatim>\<open>try\<close> has one handler, \<^verbatim>\<open>except queue.Empty\<close>: that
  exception continues the loop whoever raised it, every other exception leaves
  \<^verbatim>\<open>_process_audio\<close> and ends the thread. The quotient is kept exact.
\<close>

definition duration_of :: "recorder \<Rightarrow> rat" where
  "duration_of s = of_int (int (length (frames s)) * chunk_size s) / of_int (sample_rate s)"

definition process_audio_get :: "recorder \<Rightarrow> recorder" where
  "process_audio_get s =
     (case audio_queue s of
        [] \<Rightarrow> s\<lparr>processing_thread := Some AtWhile\<rparr>
      | data # rest \<Rightarrow>
          let s1 = s\<lparr>audio_queue := rest, frames := frames s @ [data]\<rparr> in
          (case callback s1 of
             None \<Rightarrow> s1\<lparr>processing_thread := Some AtWhile\<rparr>
           | Some f \<Rightarrow>
               if sample_rate s1 = 0 then s1\<lparr>processing_thread := Some (Died ZeroDivisionError)\<rparr>
               else
                 let duration = duration_of s1;
                     s2 = s1\<lparr>callback_calls := callback_calls s1 @ [(duration, length data)]\<rparr>
                 in (case f duration (length data) of
                       None \<Rightarrow> s2\<lparr>processing_thread := Some AtWhile\<rparr>
                     | Some e \<Rightarrow>
                         if e = QueueEmpty then s2\<lparr>processing_thread := Some AtWhile\<rparr>
                         else s2\<lparr>processing_thread := Some (Died e)\<rparr>)))"

text \<open>
  One step of the thread: the test \<^verbatim>\<open>self.recording or not self.audio_queue.empty()\<close>,
  or the body. A thread that has ended, or was never started, does nothing.
\<close>

definition process_audio_step :: "recorder \<Rightarrow> recorder" where
  "process_audio_step s =
     (case processing_thread s of
        Some AtWhile \<Rightarrow>
          if recording s \<or> audio_queue s \<noteq> [] then s\<lparr>processing_thread := Some AtGet\<rparr>
          else s\<lparr>processing_thread := Some Finished\<rparr>
      | Some AtGet \<Rightarrow> process_audio_get s
      | _ \<Rightarrow> s)"

definition is_alive :: "recorder \<Rightarrow> bool" where
  "is_alive s = (processing_thread s = Some AtWhile \<or> processing_thread s = Some AtGet)"

text \<open>
  \<^verbatim>\<open>processing_thread.join()\<close>: the caller waits while the thread is alive. During the
  wait only the thread runs (the stream is closed by then), so the wait is the thread's
  steps repeated until it has ended; \<open>None\<close> is a wait that never ends.
\<close>

partial_function (option) join :: "recorder \<Rightarrow> recorder option" where
  "join s = (if is_alive s then join (process_audio_step s) else Some s)"

declare join.simps [code]

text \<open>
  What the driver and the drain thread do between two calls of the caller: any
  interleaving of driver calls and steps of the thread.
\<close>

datatype event = Audio chunk bool | Drain

fun run_event :: "recorder \<Rightarrow> event \<Rightarrow> recorder" where
  "run_event s (Audio indata status) = audio_callback s indata status"
| "run_event s Drain = process_audio_step s"

fun run :: "recorder \<Rightarrow> event list \<Rightarrow> recorder" where
  "run s [] = s"
| "run s (e # es) = run (run_event s e) es"

text \<open>The blocks that the driver delivers in a schedule, in order.\<close>

fun delivered :: "event list \<Rightarrow> chunk list" where
  "delivered [] = []"
| "delivered (Audio indata status # es) = indata # delivered es"
| "delivered (Drain # es) = delivered es"

subsection \<open>The output path\<close>

text \<open>
  \<^verbatim>\<open>datetime.now()\<close> is the local wall-clock time, an input from outside. The file name
  is \<^verbatim>\<open>strftime("%Y%m%d_%H%M%S")\<close> of it: the fields down to the second, the year in
  four digits (for the years 1000 to 9999) and each other field in two.
\<close>

record datetime =
  year :: nat
  month :: nat
  day :: nat
  hour :: nat
  minute :: nat
  second :: nat
  microsecond :: nat

definition digit :: "nat \<Rightarrow> char" where
  "digit d = ''0123456789'' ! (d mod 10)"

definition pad2 :: "nat \<Rightarrow> string" where
  "pad2 n = [digit (n div 10), digit n]"

definition pad4 :: "nat \<Rightarrow> string" where
  "pad4 n = [digit (n div 1000), digit (n div 100), digit (n div 10), digit n]"

definition strftime :: "datetime \<Rightarrow> string" where
  "strftime t = pad4 (year t) @ pad2 (month t) @ pad2 (day t) @ ''_'' @
     pad2 (hour t) @ pad2 (minute t) @ pad2 (second t)"

definition output_path :: "string \<Rightarrow> datetime \<Rightarrow> string" where
  "output_path dir t = dir @ ''/'' @ ''recording_'' @ strftime t @ ''.wav''"

subsection \<open>start_recording\<close>

text \<open>
  What the outside decides during a call of \<^verbatim>\<open>start_recording\<close>: the clock, whether
  \<^verbatim>\<open>sd.InputStream(...)\<close> raises, and whether \<^verbatim>\<open>stream.start()\<close> raises (both with
  \<open>PortAudioError\<close>).
\<close>

record start_env =
  time_now :: rat
  open_fails :: bool
  start_fails :: bool
  datetime_now :: datetime

text \<open>
  The statements in the order of the source. The flag is set and the frames are reset
  before the stream is opened, and no handler undoes that when opening raises. From
  \<^verbatim>\<open>processing_thread.start()\<close> on, the thread and the driver may run before the method
  returns; the statements that remain touch only \<open>stream\<close> and \<open>output_file\<close>, which
  neither of them reads, so their steps are scheduled after the return.
\<close>

definition start_recording ::
    "recorder \<Rightarrow> progress_callback option \<Rightarrow> start_env \<Rightarrow> (exn + string) \<times> recorder" where
  "start_recording s cb env =
     (if recording s then (Inl AlreadyRecording, s)
      else
        let s1 = s\<lparr>callback := cb, recording := True, frames := [],
                   start_time := Some (time_now env)\<rparr> in
        if open_fails env then (Inl PortAudioError, s1)
        else
          let s2 = s1\<lparr>stream := Some Created\<rparr>;
              s3 = s2\<lparr>processing_thread := Some AtWhile\<rparr> in
          if start_fails env then (Inl PortAudioError, s3)
          else
            let s4 = s3\<lparr>stream := Some Started\<rparr>;
                p = output_path (output_dir s4) (datetime_now env);
                s5 = s4\<lparr>output_file := Some p\<rparr>
            in (Inr p, s5))"

subsection \<open>Saving\<close>

text \<open>
  \<^verbatim>\<open>audio_data * 32767\<close> is a float32 product: the exact product rounded to the nearest
  float32 (24 significant bits, ties to even, exponent of the last place not below
  -149). \<^verbatim>\<open>astype(np.int16)\<close> is the C conversion: the fraction is dropped (towards
  zero) and, for an integer that fits 32 bits, the low 16 bits are kept. Beyond that C
  leaves the result open, so what is stated below about the value written for a sample
  keeps to samples under 65536 in magnitude, whose product is less than \<open>2 ^ 31\<close>.
\<close>

definition floor_log2 :: "rat \<Rightarrow> int" where
  "floor_log2 x =
     (let (p, q) = quotient_of x; d = bitlen p - bitlen q
      in if 2 powi d \<le> x then d else d - 1)"

definition round_half_even :: "rat \<Rightarrow> int" where
  "round_half_even x =
     (let f = \<lfloor>x\<rfloor>; r = x - of_int f
      in if r < 1 / 2 then f else if 1 / 2 < r then f + 1 else if even f then f else f + 1)"

definition f32_round :: "rat \<Rightarrow> rat" where
  "f32_round x =
     (if x = 0 then 0
      else
        let u = 2 powi (max (- 149) (floor_log2 \<bar>x\<bar> - 23))
        in of_int (round_half_even (x / u)) * u)"

definition f32_mul :: "rat \<Rightarrow> rat \<Rightarrow> rat" where
  "f32_mul x y = f32_round (x * y)"

definition trunc :: "rat \<Rightarrow> int" where
  "trunc x = (if 0 \<le> x then \<lfloor>x\<rfloor> else \<lceil>x\<rceil>)"

definition astype_int16 :: "rat \<Rightarrow> 16 word" where
  "astype_int16 x = word_of_int (trunc x)"

definition to_pcm16 :: "sample \<Rightarrow> 16 word" where
  "to_pcm16 x = astype_int16 (f32_mul x 32767)"

text \<open>
  \<^verbatim>\<open>_save_wav\<close>: the samples are converted, then the file is opened and written; the
  \<^verbatim>\<open>wave\<close> module may raise (\<open>write_fails\<close>), and what a failed write leaves on disk
  is not modelled. \<open>audio_data\<close> is the concatenated array, frames by channels, and
  \<^verbatim>\<open>tobytes()\<close> lays it out row by row.
\<close>

record stop_env =
  write_fails :: bool

definition save_wav :: "recorder \<Rightarrow> sample list list \<Rightarrow> string \<Rightarrow> stop_env \<Rightarrow> exn + recorder" where
  "save_wav s audio_data filepath env =
     (let data = map (map to_pcm16) audio_data in
      if write_fails env then Inl OSError
      else
          Inr (s\<lparr>files := (files s)(filepath \<mapsto>
                 \<lparr>nchannels = channels s, sampwidth = 2, framerate = sample_rate s,
                  pcm = concat data\<rparr>)\<rparr>))"

subsection \<open>stop_recording\<close>

text \<open>
  \<^verbatim>\<open>stream.stop()\<close> and \<^verbatim>\<open>stream.close()\<close> leave the stream closed, also one
  that was closed before (\<^verbatim>\<open>sounddevice\<close> ignores the errors of both calls unless asked
  not to); reading
  \<^verbatim>\<open>self.stream\<close> raises when no stream was ever assigned. The flag is cleared before
  the join. A step the thread takes between these statements sees the flag still set
  and acts as it would have before the call, so such steps are scheduled before it. After the join the frames are saved when there are any, and the path is
  returned; reading \<^verbatim>\<open>self.output_file\<close> raises when it was never assigned.
\<close>

definition save_and_return :: "recorder \<Rightarrow> stop_env \<Rightarrow> (exn + string) \<times> recorder" where
  "save_and_return s env =
     (if frames s \<noteq> [] then
        (case output_file s of
           None \<Rightarrow> (Inl AttributeError, s)
         | Some p \<Rightarrow>
             (case save_wav s (concat (frames s)) p env of
                Inl e \<Rightarrow> (Inl e, s)
              | Inr s' \<Rightarrow> (Inr p, s')))
      else
        (case output_file s of
           None \<Rightarrow> (Inl AttributeError, s)
         | Some p \<Rightarrow> (Inr p, s)))"

definition stop_recording :: "recorder \<Rightarrow> stop_env \<Rightarrow> ((exn + string) \<times> recorder) option" where
  "stop_recording s env =
     (if \<not> recording s then Some (Inl NotRecording, s)
      else
        (case stream s of
           None \<Rightarrow> Some (Inl AttributeError, s)
         | Some st \<Rightarrow>
             let s1 = s\<lparr>stream := Some Closed, recording := False\<rparr> in
             (case (case processing_thread s1 of None \<Rightarrow> Some s1 | Some t \<Rightarrow> join s1) of
                None \<Rightarrow> None
              | Some s2 \<Rightarrow> Some (save_and_return s2 env))))"

subsection \<open>record\<close>

text \<open>
  \<^verbatim>\<open>record(duration, callback)\<close>: \<^verbatim>\<open>start_recording\<close> is called outside the
  \<^verbatim>\<open>try\<close>, so its exception leaves \<^verbatim>\<open>record\<close>. Then the caller sleeps; while it does,
  the driver and the thread run (the schedule \<open>es\<close>). The sleep returns, or is
  interrupted by \<^verbatim>\<open>KeyboardInterrupt\<close> (handled by a print), or raises something else;
  in each case the \<^verbatim>\<open>finally\<close> block runs \<^verbatim>\<open>return self.stop_recording()\<close>, and a
  \<^verbatim>\<open>return\<close> in \<^verbatim>\<open>finally\<close> drops an exception in flight.
\<close>

datatype sleep_outcome = Slept | Interrupted | Raised exn

definition record_for :: "recorder \<Rightarrow> rat option \<Rightarrow> progress_callback option \<Rightarrow> start_env \<Rightarrow>
    event list \<Rightarrow> sleep_outcome \<Rightarrow> stop_env \<Rightarrow> ((exn + string) \<times> recorder) option" where
  "record_for s duration cb env es outcome senv =
     (let duration = (case duration of None \<Rightarrow> max_duration s | Some d \<Rightarrow> d) in
      case start_recording s cb env of
        (Inl e, s1) \<Rightarrow> Some (Inl e, s1)
      | (Inr path, s1) \<Rightarrow>
          let s2 = run s1 es in
          (case outcome of
             Slept \<Rightarrow> stop_recording s2 senv
           | Interrupted \<Rightarrow> stop_recording s2 senv
           | Raised e \<Rightarrow> stop_recording s2 senv))"

subsection \<open>Notions used in the statements\<close>

text \<open>
  A callback that cannot end the drain thread: none at all, or one that raises nothing
  but \<^verbatim>\<open>queue.Empty\<close> on a recorder whose sample rate is not 0.
\<close>

definition harmless :: "recorder \<Rightarrow> progress_callback option \<Rightarrow> bool" where
  "harmless s cb =
     (case cb of
        None \<Rightarrow> True
      | Some f \<Rightarrow> sample_rate s \<noteq> 0 \<and> (\<forall>d n. f d n = None \<or> f d n = Some QueueEmpty))"

text \<open>
  The calls a callback should have received for the frames accumulated so far: one per
  chunk, the \<open>i\<close>-th (from 1) with \<open>i * chunk_size / sample_rate\<close> and the number of
  frames of the chunk.
\<close>

definition expected_calls :: "recorder \<Rightarrow> (rat \<times> nat) list" where
  "expected_calls s =
     map (\<lambda>i. (of_int (int (i + 1) * chunk_size s) / of_int (sample_rate s), length (frames s ! i)))
       [0..<length (frames s)]"

text \<open>No stream is open: none was ever assigned, or the last one is closed.\<close>

definition no_open_stream :: "recorder \<Rightarrow> bool" where
  "no_open_stream s = (stream s = None \<or> stream s = Some Closed)"

text \<open>
  The conversion as the specification words it: \<open>round(sample * 32767)\<close>, clipped to
  the range of a 16-bit signed integer.
\<close>

definition spec_pcm16 :: "sample \<Rightarrow> int" where
  "spec_pcm16 x = max (- 32768) (min 32767 (round (x * 32767)))"

text \<open>Two timestamps that agree down to the second.\<close>

definition same_second :: "datetime \<Rightarrow> datetime \<Rightarrow> bool" where
  "same_second t u =
     (year t = year u \<and> month t = month u \<and> day t = day u \<and>
      hour t = hour u \<and> minute t = minute u \<and> second t = second u)"

text \<open>A timestamp whose fields have the width that the format gives them.\<close>

definition in_format_range :: "datetime \<Rightarrow> bool" where
  "in_format_range t =
     (1000 \<le> year t \<and> year t < 10000 \<and> month t < 100 \<and> day t < 100 \<and>
      hour t < 100 \<and> minute t < 100 \<and> second t < 100)"

subsection \<open>A concrete recorder\<close>

definition ex_config :: config where
  "ex_config = \<lparr>cfg_sample_rate = 16000, cfg_channels = 1, cfg_chunk_size = 1024,
     cfg_max_duration_minutes = 60, cfg_save_directory = ''recordings''\<rparr>"

definition ex_recorder :: recorder where
  "ex_recorder = init ex_config None None None Map.empty"

definition ex_time :: datetime where
  "ex_time = \<lparr>year = 2024, month = 3, day = 9, hour = 10, minute = 30, second = 15,
     microsecond = 100\<rparr>"

definition ex_time_later :: datetime where
  "ex_time_later = ex_time\<lparr>microsecond := 900000\<rparr>"

definition ex_env :: start_env where
  "ex_env = \<lparr>time_now = 0, open_fails = False, start_fails = False, datetime_now = ex_time\<rparr>"

definition ex_env_later :: start_env where
  "ex_env_later = ex_env\<lparr>datetime_now := ex_time_later\<rparr>"

definition ex_env_no_device :: start_env where
  "ex_env_no_device = ex_env\<lparr>open_fails := True\<rparr>"

definition ex_stop :: stop_env where
  "ex_stop = \<lparr>write_fails = False\<rparr>"

definition chunk_a :: chunk where
  "chunk_a = [[1 / 2], [- 1 / 2]]"

definition chunk_b :: chunk where
  "chunk_b = [[3 / 2], [1]]"

definition chunk_c :: chunk where
  "chunk_c = [[0], [1 / 4], [- 1]]"

definition chunk_d :: chunk where
  "chunk_d = [[- 3 / 2]]"

definition quiet_callback :: progress_callback where
  "quiet_callback d n = None"

definition failing_callback :: progress_callback where
  "failing_callback d n = Some (OtherError ''observer failed'')"

definition ex_time_next :: datetime where
  "ex_time_next = ex_time\<lparr>second := 16\<rparr>"

definition ex_env_next :: start_env where
  "ex_env_next = ex_env\<lparr>datetime_now := ex_time_next\<rparr>"

text \<open>The state of a session on the concrete recorder after a schedule.\<close>

definition ex_session :: "progress_callback option \<Rightarrow> event list \<Rightarrow> recorder" where
  "ex_session cb es = run (snd (start_recording ex_recorder cb ex_env)) es"

text \<open>
  The concrete recorder after a first session that recorded \<open>chunk_a\<close>, and after a
  second session, started later in the same second, that recorded \<open>chunk_b\<close>.
\<close>

definition ex_after_first :: recorder where
  "ex_after_first =
     snd (the (stop_recording (ex_session None [Audio chunk_a False, Drain, Drain]) ex_stop))"

definition ex_after_second :: recorder where
  "ex_after_second =
     snd (the (stop_recording
       (run (snd (start_recording ex_after_first None ex_env_later))
          [Audio chunk_b False, Drain, Drain]) ex_stop))"

text \<open>The concrete recorder after a session that recorded \<open>chunk_c\<close> and \<open>chunk_b\<close>.\<close>

definition ex_after_loud :: recorder where
  "ex_after_loud =
     snd (the (stop_recording
       (ex_session None [Audio chunk_c False, Audio chunk_b False, Drain, Drain, Drain, Drain])
       ex_stop))"

text \<open>
  The concrete recorder after the first session and then a second one, started later
  in the same second, in which the driver delivered nothing.
\<close>

definition ex_after_silent :: recorder where
  "ex_after_silent =
     snd (the (stop_recording
       (run (snd (start_recording ex_after_first None ex_env_later)) [Drain, Drain]) ex_stop))"

text \<open>
  The concrete recorder after the first session, then a start at which the device
  cannot be opened, then a call of stop_recording.
\<close>

definition ex_blocked :: recorder where
  "ex_blocked = snd (start_recording ex_after_first None ex_env_no_device)"

definition ex_unblocked :: recorder where
  "ex_unblocked = snd (the (stop_recording ex_blocked ex_stop))"

text \<open>
  The concrete recorder after a call of record during which two chunks are delivered
  and the callback raises on the first.
\<close>

definition ex_after_record :: recorder where
  "ex_after_record =
     snd (the (record_for ex_recorder (Some 1) (Some failing_callback) ex_env
       [Audio chunk_a False, Audio chunk_b False, Drain, Drain] Slept ex_stop))"

subsection \<open>Notions used in the proofs\<close>

text \<open>
  Each step of a live thread that leaves it alive, with the flag cleared, lowers this
  measure.
\<close>

definition drain_measure :: "recorder \<Rightarrow> nat" where
  "drain_measure s = 3 * length (audio_queue s) +
     (if processing_thread s = Some AtWhile then 1 else if audio_queue s = [] then 2 else 0)"

text \<open>A thread that was started, has not been ended by an exception, and cannot be.\<close>

definition unharmed :: "recorder \<Rightarrow> bool" where
  "unharmed s =
     (harmless s (callback s) \<and> (\<forall>e. processing_thread s \<noteq> Some (Died e)) \<and>
      processing_thread s \<noteq> None)"

text \<open>The flag is set, and the thread was started and has not returned.\<close>

definition at_work :: "recorder \<Rightarrow> bool" where
  "at_work s =
     (recording s \<and> processing_thread s \<noteq> None \<and> processing_thread s \<noteq> Some Finished)"

text \<open>
  The calls received are those received before (\<open>base\<close>) followed by one call per
  accumulated chunk.
\<close>

definition calls_match :: "(rat \<times> nat) list \<Rightarrow> recorder \<Rightarrow> bool" where
  "calls_match base t =
     (callback t \<noteq> None \<and> sample_rate t \<noteq> 0 \<and> callback_calls t = base @ expected_calls t)"

section \<open>Properties\<close>

subsection \<open>Steps of the drain thread and of the driver\<close>

lemma step_fields [simp]:
  "recording (process_audio_step s) = recording s"
  "stream (process_audio_step s) = stream s"
  "output_file (process_audio_step s) = output_file s"
  "files (process_audio_step s) = files s"
  "sample_rate (process_audio_step s) = sample_rate s"
  "chunk_size (process_audio_step s) = chunk_size s"
  "channels (process_audio_step s) = channels s"
  "callback (process_audio_step s) = callback s"
  "output_dir (process_audio_step s) = output_dir s"
  by (simp_all add: process_audio_step_def process_audio_get_def Let_def
      split: option.splits thread_state.splits list.splits)

lemma step_frames_queue [simp]:
  "frames (process_audio_step s) @ audio_queue (process_audio_step s) = frames s @ audio_queue s"
  by (simp add: process_audio_step_def process_audio_get_def Let_def
      split: option.splits thread_state.splits list.splits)

lemma audio_callback_fields [simp]:
  "recording (audio_callback s c b) = recording s"
  "stream (audio_callback s c b) = stream s"
  "output_file (audio_callback s c b) = output_file s"
  "files (audio_callback s c b) = files s"
  "sample_rate (audio_callback s c b) = sample_rate s"
  "chunk_size (audio_callback s c b) = chunk_size s"
  "channels (audio_callback s c b) = channels s"
  "callback (audio_callback s c b) = callback s"
  "output_dir (audio_callback s c b) = output_dir s"
  "frames (audio_callback s c b) = frames s"
  "processing_thread (audio_callback s c b) = processing_thread s"
  "callback_calls (audio_callback s c b) = callback_calls s"
  "audio_queue (audio_callback s c b) = audio_queue s @ [c]"
  by (simp_all add: audio_callback_def)

lemma run_preserves:
  assumes "\<And>t e. f (run_event t e) = f t"
  shows "f (run s es) = f s"
  by (induction es arbitrary: s) (simp_all add: assms)

lemma run_event_fields [simp]:
  "recording (run_event s e) = recording s"
  "stream (run_event s e) = stream s"
  "output_file (run_event s e) = output_file s"
  "files (run_event s e) = files s"
  "sample_rate (run_event s e) = sample_rate s"
  "chunk_size (run_event s e) = chunk_size s"
  "channels (run_event s e) = channels s"
  "callback (run_event s e) = callback s"
  "output_dir (run_event s e) = output_dir s"
  by (cases e; simp)+

lemma run_fields [simp]:
  "recording (run s es) = recording s"
  "stream (run s es) = stream s"
  "output_file (run s es) = output_file s"
  "files (run s es) = files s"
  "sample_rate (run s es) = sample_rate s"
  "chunk_size (run s es) = chunk_size s"
  "channels (run s es) = channels s"
  "callback (run s es) = callback s"
  "output_dir (run s es) = output_dir s"
  by (rule run_preserves, simp)+

lemma run_invariant:
  assumes "P s" and "\<And>t e. P t \<Longrightarrow> P (run_event t e)"
  shows "P (run s es)"
  using assms(1) by (induction es arbitrary: s) (simp_all add: assms(2))

lemma run_frames_queue:
  "frames (run s es) @ audio_queue (run s es) = frames s @ audio_queue s @ delivered es"
proof (induction s es rule: run.induct)
  case (1 s)
  then show ?case by simp
next
  case (2 s e es)
  show ?case
  proof (cases e)
    case (Audio c b)
    with 2 show ?thesis by simp
  next
    case Drain
    have "frames (run (process_audio_step s) es) @ audio_queue (run (process_audio_step s) es)
        = (frames (process_audio_step s) @ audio_queue (process_audio_step s)) @ delivered es"
      using 2 Drain by simp
    then show ?thesis using Drain by simp
  qed
qed

subsection \<open>The join\<close>

text \<open>Whatever every step of the thread keeps, the join keeps.\<close>

lemma join_invariant:
  assumes "join s = Some s'" and "P s" and step: "\<And>t. P t \<Longrightarrow> P (process_audio_step t)"
  shows "P s'"
proof -
  have "P s \<longrightarrow> P s'"
    by (rule join.raw_induct [where P = "\<lambda>s s'. P s \<longrightarrow> P s'", OF _ assms(1)])
       (auto split: if_splits intro: step)
  with assms(2) show ?thesis by simp
qed

lemma join_not_alive: "join s = Some s' \<Longrightarrow> \<not> is_alive s'"
  by (rule join.raw_induct [where P = "\<lambda>s s'. \<not> is_alive s'"]) (auto split: if_splits)

text \<open>With the flag cleared the join returns.\<close>

lemma step_measure:
  "is_alive s \<Longrightarrow> \<not> recording s \<Longrightarrow> is_alive (process_audio_step s) \<Longrightarrow>
   drain_measure (process_audio_step s) < drain_measure s"
  by (auto simp: is_alive_def drain_measure_def process_audio_step_def process_audio_get_def Let_def
      split: option.splits thread_state.splits list.splits if_splits)

lemma join_returns: "\<not> recording s \<Longrightarrow> \<exists>s'. join s = Some s'"
proof (induction "drain_measure s" arbitrary: s rule: less_induct)
  case less
  show ?case
  proof (cases "is_alive s")
    case False
    then show ?thesis by (simp add: join.simps)
  next
    case True
    show ?thesis
    proof (cases "is_alive (process_audio_step s)")
      case False
      then have "join (process_audio_step s) = Some (process_audio_step s)"
        by (simp add: join.simps)
      with True show ?thesis by (subst join.simps) simp
    next
      case alive: True
      have "\<exists>s'. join (process_audio_step s) = Some s'"
        using less.hyps [of "process_audio_step s"] step_measure [OF True less.prems alive] less.prems
        by simp
      with True show ?thesis by (subst join.simps) simp
    qed
  qed
qed

lemma join_fields:
  assumes "join s = Some s'"
  shows "recording s' = recording s" "stream s' = stream s" "output_file s' = output_file s"
    "files s' = files s" "sample_rate s' = sample_rate s" "chunk_size s' = chunk_size s"
    "channels s' = channels s" "callback s' = callback s" "output_dir s' = output_dir s"
    "frames s' @ audio_queue s' = frames s @ audio_queue s"
proof -
  let ?P = "\<lambda>t. recording t = recording s \<and> stream t = stream s \<and> output_file t = output_file s \<and>
    files t = files s \<and> sample_rate t = sample_rate s \<and> chunk_size t = chunk_size s \<and>
    channels t = channels s \<and> callback t = callback s \<and> output_dir t = output_dir s \<and>
    frames t @ audio_queue t = frames s @ audio_queue s"
  have "?P s'"
    by (rule join_invariant [OF assms, where P = ?P]) simp_all
  then show "recording s' = recording s" "stream s' = stream s" "output_file s' = output_file s"
    "files s' = files s" "sample_rate s' = sample_rate s" "chunk_size s' = chunk_size s"
    "channels s' = channels s" "callback s' = callback s" "output_dir s' = output_dir s"
    "frames s' @ audio_queue s' = frames s @ audio_queue s"
    by simp_all
qed

text \<open>The thread returns from the loop only with the flag cleared and the queue empty.\<close>

lemma step_finishes:
  "processing_thread s \<noteq> Some Finished \<Longrightarrow> processing_thread (process_audio_step s) = Some Finished \<Longrightarrow>
   processing_thread s = Some AtWhile \<and> \<not> recording s \<and> audio_queue s = []"
  by (auto simp: process_audio_step_def process_audio_get_def Let_def
      split: option.splits thread_state.splits list.splits if_splits)

lemma step_queue_finished:
  "processing_thread s = Some Finished \<longrightarrow> audio_queue s = [] \<Longrightarrow>
   processing_thread (process_audio_step s) = Some Finished \<longrightarrow> audio_queue (process_audio_step s) = []"
  by (auto simp: process_audio_step_def process_audio_get_def Let_def
      split: option.splits thread_state.splits list.splits if_splits)

lemma join_queue_finished:
  assumes "join s = Some s'" and "processing_thread s = Some Finished \<longrightarrow> audio_queue s = []"
  shows "processing_thread s' = Some Finished \<longrightarrow> audio_queue s' = []"
  by (rule join_invariant [OF assms(1), where P = "\<lambda>t. processing_thread t = Some Finished \<longrightarrow> audio_queue t = []"])
     (use assms(2) step_queue_finished in auto)

text \<open>A harmless callback never ends the thread.\<close>

lemma harmless_cong: "sample_rate s' = sample_rate s \<Longrightarrow> harmless s' cb = harmless s cb"
  by (simp add: harmless_def split: option.splits)

lemma step_unharmed: "unharmed s \<Longrightarrow> unharmed (process_audio_step s)"
  apply (auto simp: unharmed_def harmless_def process_audio_step_def process_audio_get_def Let_def
      split: option.splits thread_state.splits list.splits if_splits)
  apply (metis option.distinct(1) option.inject)
  done

lemma run_event_unharmed: "unharmed s \<Longrightarrow> unharmed (run_event s e)"
  by (cases e) (simp_all add: step_unharmed, simp add: unharmed_def harmless_def split: option.splits)

lemma run_unharmed: "unharmed s \<Longrightarrow> unharmed (run s es)"
  by (rule run_invariant) (simp_all add: run_event_unharmed)

lemma join_unharmed: "join s = Some s' \<Longrightarrow> unharmed s \<Longrightarrow> unharmed s'"
  by (rule join_invariant [where P = unharmed]) (simp_all add: step_unharmed)

lemma unharmed_dead: "unharmed s \<Longrightarrow> \<not> is_alive s \<Longrightarrow> processing_thread s = Some Finished"
  by (cases "processing_thread s"; cases "the (processing_thread s)") (auto simp: unharmed_def is_alive_def)

text \<open>While the flag is set the thread does not return.\<close>

lemma run_event_at_work: "at_work s \<Longrightarrow> at_work (run_event s e)"
  by (cases e) (auto simp: at_work_def process_audio_step_def process_audio_get_def Let_def
      split: option.splits thread_state.splits list.splits if_splits)

lemma run_at_work: "at_work s \<Longrightarrow> at_work (run s es)"
  by (rule run_invariant) (simp_all add: run_event_at_work)

subsection \<open>start and stop\<close>

lemma start_recording_success:
  assumes "start_recording s cb env = (Inr p, s1)"
  shows "\<not> recording s" "recording s1" "stream s1 = Some Started" "output_file s1 = Some p"
    "processing_thread s1 = Some AtWhile" "frames s1 = []" "audio_queue s1 = audio_queue s"
    "callback s1 = cb" "files s1 = files s" "sample_rate s1 = sample_rate s"
    "chunk_size s1 = chunk_size s" "channels s1 = channels s" "output_dir s1 = output_dir s"
    "callback_calls s1 = callback_calls s" "p = output_path (output_dir s) (datetime_now env)"
  using assms by (auto simp: start_recording_def Let_def split: if_splits)

lemma save_and_return_fields:
  "frames (snd (save_and_return s env)) = frames s"
  "audio_queue (snd (save_and_return s env)) = audio_queue s"
  "processing_thread (snd (save_and_return s env)) = processing_thread s"
  "recording (snd (save_and_return s env)) = recording s"
  "stream (snd (save_and_return s env)) = stream s"
  "callback_calls (snd (save_and_return s env)) = callback_calls s"
  "sample_rate (snd (save_and_return s env)) = sample_rate s"
  "chunk_size (snd (save_and_return s env)) = chunk_size s"
  by (simp_all add: save_and_return_def save_wav_def Let_def split: option.splits sum.splits)

text \<open>The shape of a call of stop_recording that gets past its first two reads.\<close>

lemma stop_recording_active:
  assumes "recording s" and "stream s \<noteq> None"
  shows "\<exists>s2. join (s\<lparr>stream := Some Closed, recording := False\<rparr>) = Some s2 \<and>
           (processing_thread s \<noteq> None \<longrightarrow> \<not> is_alive s2) \<and>
           stop_recording s env = Some (save_and_return s2 env)"
proof -
  let ?s1 = "s\<lparr>stream := Some Closed, recording := False\<rparr>"
  obtain s2 where j: "join ?s1 = Some s2"
    using join_returns [of ?s1] by auto
  show ?thesis
  proof (cases "processing_thread s")
    case None
    then have "\<not> is_alive ?s1" by (simp add: is_alive_def)
    then have "join ?s1 = Some ?s1" by (simp add: join.simps)
    with None assms show ?thesis by (auto simp: stop_recording_def Let_def)
  next
    case (Some t)
    with assms j join_not_alive [OF j] show ?thesis
      by (auto simp: stop_recording_def Let_def)
  qed
qed

text \<open>
  A call of stop_recording while the thread is at work: the join returns, the thread
  has ended, and whatever was queued has gone to the frames unless an exception ended
  the thread first.
\<close>

lemma stop_after_session:
  assumes "at_work t" and "stream t \<noteq> None"
  shows "\<exists>s2. stop_recording t env = Some (save_and_return s2 env) \<and>
           join (t\<lparr>stream := Some Closed, recording := False\<rparr>) = Some s2 \<and> \<not> is_alive s2 \<and>
           \<not> recording s2 \<and> stream s2 = Some Closed \<and>
           frames s2 @ audio_queue s2 = frames t @ audio_queue t \<and>
           (processing_thread s2 = Some Finished \<longrightarrow> audio_queue s2 = []) \<and>
           (unharmed t \<longrightarrow> processing_thread s2 = Some Finished) \<and>
           output_file s2 = output_file t \<and> files s2 = files t \<and>
           sample_rate s2 = sample_rate t \<and> channels s2 = channels t \<and>
           chunk_size s2 = chunk_size t \<and> callback s2 = callback t"
proof -
  let ?t1 = "t\<lparr>stream := Some Closed, recording := False\<rparr>"
  from assms(1) have r: "recording t" and started: "processing_thread t \<noteq> None"
    and going: "processing_thread t \<noteq> Some Finished"
    by (auto simp: at_work_def)
  from stop_recording_active [OF r assms(2), of env] started
  obtain s2 where j: "join ?t1 = Some s2" and dead: "\<not> is_alive s2"
    and stop: "stop_recording t env = Some (save_and_return s2 env)"
    by auto
  note f = join_fields [OF j]
  have q: "processing_thread s2 = Some Finished \<longrightarrow> audio_queue s2 = []"
    using going by (intro join_queue_finished [OF j]) simp
  have u: "unharmed t \<longrightarrow> processing_thread s2 = Some Finished"
  proof
    assume "unharmed t"
    then have "unharmed ?t1" by (simp add: unharmed_def harmless_cong [of ?t1 t])
    from join_unharmed [OF j this] dead show "processing_thread s2 = Some Finished"
      by (rule unharmed_dead)
  qed
  from stop j dead f q u show ?thesis by (intro exI [of _ s2]) simp
qed

lemma session_state:
  assumes "start_recording s cb env = (Inr p, s1)"
  shows "at_work (run s1 es)" "stream (run s1 es) = Some Started"
    "output_file (run s1 es) = Some p" "files (run s1 es) = files s"
    "frames (run s1 es) @ audio_queue (run s1 es) = audio_queue s @ delivered es"
    "harmless s cb \<Longrightarrow> unharmed (run s1 es)"
proof -
  note st = start_recording_success [OF assms]
  show "stream (run s1 es) = Some Started"
    "output_file (run s1 es) = Some p" "files (run s1 es) = files s"
    using st by simp_all
  have "at_work s1" using st by (simp add: at_work_def)
  then show "at_work (run s1 es)" by (rule run_at_work)
  show "frames (run s1 es) @ audio_queue (run s1 es) = audio_queue s @ delivered es"
    using run_frames_queue [of s1 es] st by simp
  show "unharmed (run s1 es)" if "harmless s cb"
  proof (rule run_unharmed)
    show "unharmed s1" using st that by (simp add: unharmed_def harmless_cong [of s1 s])
  qed
qed

text \<open>A thread that has ended does nothing more.\<close>

lemma dead_thread_step: "\<not> is_alive s \<Longrightarrow> process_audio_step s = s"
  by (cases "processing_thread s"; cases "the (processing_thread s)")
     (auto simp: is_alive_def process_audio_step_def)

lemma dead_thread_run: "\<not> is_alive s \<Longrightarrow> frames (run s es) = frames s \<and> processing_thread (run s es) = processing_thread s"
proof (induction es arbitrary: s)
  case Nil
  then show ?case by simp
next
  case (Cons e es)
  show ?case
  proof (cases e)
    case (Audio c b)
    have "\<not> is_alive (audio_callback s c b)" using Cons.prems by (simp add: is_alive_def)
    from Cons.IH [OF this] Audio show ?thesis by simp
  next
    case Drain
    with Cons.IH [OF Cons.prems] dead_thread_step [OF Cons.prems] show ?thesis by simp
  qed
qed

lemma save_and_return_not_guard: "fst (save_and_return s env) \<noteq> Inl NotRecording"
  by (simp add: save_and_return_def save_wav_def Let_def split: option.splits)

lemma init_no_open_stream: "no_open_stream (init cfg sr ch cs fs) \<and> \<not> recording (init cfg sr ch cs fs)"
  by (simp add: init_def no_open_stream_def)

text \<open>What stop_recording leaves when the write succeeds.\<close>

lemma save_and_return_written:
  assumes "\<not> write_fails env" and "output_file s = Some p"
  shows "fst (save_and_return s env) = Inr p"
    and "frames s \<noteq> [] \<Longrightarrow> files (snd (save_and_return s env)) p =
      Some \<lparr>nchannels = channels s, sampwidth = 2, framerate = sample_rate s,
            pcm = concat (map (map to_pcm16) (concat (frames s)))\<rparr>"
  using assms by (simp_all add: save_and_return_def save_wav_def Let_def)

text \<open>One call of the callback per chunk, with the accumulated duration.\<close>

lemma get_calls_match: "calls_match base s \<Longrightarrow> calls_match base (process_audio_get s)"
  by (cases "audio_queue s")
     (auto simp: calls_match_def process_audio_get_def Let_def expected_calls_def duration_of_def
        nth_append split: option.splits)

lemma step_calls_match: "calls_match base s \<Longrightarrow> calls_match base (process_audio_step s)"
proof -
  assume m: "calls_match base s"
  have k: "calls_match base (s\<lparr>processing_thread := x\<rparr>)" for x
    using m by (simp add: calls_match_def expected_calls_def)
  show ?thesis
  proof (cases "processing_thread s")
    case None
    with m show ?thesis by (simp add: process_audio_step_def)
  next
    case (Some st)
    with m k get_calls_match [OF m] show ?thesis
      by (cases st) (simp_all add: process_audio_step_def)
  qed
qed

lemma run_event_calls_match: "calls_match base s \<Longrightarrow> calls_match base (run_event s e)"
  by (cases e) (simp_all add: step_calls_match, simp add: calls_match_def expected_calls_def)

lemma sorted_expected_calls:
  assumes "0 < sample_rate t" and "0 \<le> chunk_size t"
  shows "sorted (map fst (expected_calls t))"
proof -
  have "(of_int (int (i + 1) * chunk_size t) / of_int (sample_rate t) :: rat)
      \<le> of_int (int (j + 1) * chunk_size t) / of_int (sample_rate t)" if "i \<le> j" for i j
  proof -
    have "int (i + 1) * chunk_size t \<le> int (j + 1) * chunk_size t"
      using that assms(2) by (intro mult_right_mono) simp_all
    then have "(of_int (int (i + 1) * chunk_size t) :: rat) \<le> of_int (int (j + 1) * chunk_size t)"
      by (simp only: of_int_le_iff)
    moreover have "(0 :: rat) \<le> of_int (sample_rate t)"
      using assms(1) by simp
    ultimately show ?thesis by (rule divide_right_mono)
  qed
  then show ?thesis
    by (simp add: expected_calls_def sorted_iff_nth_mono del: of_int_mult of_int_add)
qed

text \<open>The timestamp determines its fields: every field is printed at a fixed width.\<close>

lemma digit_inj: "digit a = digit b \<Longrightarrow> a mod 10 = b mod 10"
proof -
  assume "digit a = digit b"
  then have "''0123456789'' ! (a mod 10) = ''0123456789'' ! (b mod 10)"
    by (simp only: digit_def)
  moreover have "distinct ''0123456789''" by simp
  moreover have "a mod 10 < length ''0123456789''" "b mod 10 < length ''0123456789''" by simp_all
  ultimately show ?thesis by (simp only: nth_eq_iff_index_eq)
qed

lemma mod_100: "(a::nat) mod 100 = 10 * (a div 10 mod 10) + a mod 10"
  using mod_mult2_eq [of a 10 10] by simp

lemma mod_1000: "(a::nat) mod 1000 = 100 * (a div 100 mod 10) + a mod 100"
  using mod_mult2_eq [of a 100 10] by simp

lemma mod_10000: "(a::nat) mod 10000 = 1000 * (a div 1000 mod 10) + a mod 1000"
  using mod_mult2_eq [of a 1000 10] by simp

lemma pad2_inj:
  assumes "pad2 a = pad2 b" and "a < 100" and "b < 100"
  shows "a = b"
proof -
  from assms(1) have "digit (a div 10) = digit (b div 10)" "digit a = digit b"
    by (simp_all add: pad2_def)
  then have "a div 10 mod 10 = b div 10 mod 10" "a mod 10 = b mod 10"
    by (auto dest: digit_inj)
  then have "a mod 100 = b mod 100" by (simp only: mod_100)
  with assms(2,3) show ?thesis by simp
qed

lemma pad4_inj:
  assumes "pad4 a = pad4 b" and "a < 10000" and "b < 10000"
  shows "a = b"
proof -
  from assms(1) have "digit (a div 1000) = digit (b div 1000)" "digit (a div 100) = digit (b div 100)"
    "digit (a div 10) = digit (b div 10)" "digit a = digit b"
    by (simp_all add: pad4_def)
  then have "a div 1000 mod 10 = b div 1000 mod 10" "a div 100 mod 10 = b div 100 mod 10"
    "a div 10 mod 10 = b div 10 mod 10" "a mod 10 = b mod 10"
    by (auto dest: digit_inj)
  then have "a mod 10000 = b mod 10000" by (simp only: mod_10000 mod_1000 mod_100)
  with assms(2,3) show ?thesis by simp
qed


lemma strftime_inj:
  assumes "in_format_range t" and "in_format_range u"
  shows "(strftime t = strftime u) = same_second t u"
proof
  assume "same_second t u"
  then show "strftime t = strftime u" by (simp add: strftime_def same_second_def)
next
  assume e: "strftime t = strftime u"
  have l4: "length (pad4 n) = 4" and l2: "length (pad2 n) = 2" for n
    by (simp_all add: pad4_def pad2_def)
  from e have "pad4 (year t) = pad4 (year u) \<and> pad2 (month t) = pad2 (month u) \<and>
    pad2 (day t) = pad2 (day u) \<and> pad2 (hour t) = pad2 (hour u) \<and>
    pad2 (minute t) = pad2 (minute u) \<and> pad2 (second t) = pad2 (second u)"
    unfolding strftime_def by (simp add: l4 l2)
  with assms show "same_second t u"
    unfolding same_second_def in_format_range_def
    by (metis pad4_inj pad2_inj)
qed

text \<open>
  The float32 product of a sample in \<open>[-1, 1]\<close> with 32767 stays in
  \<open>[-32767, 32767]\<close>, so its conversion does not wrap.
\<close>

lemma floor_log2_le:
  assumes "0 < x"
  shows "2 powi (floor_log2 x) \<le> x"
proof -
  obtain p q where pq: "quotient_of x = (p, q)" by (cases "quotient_of x")
  then have q: "0 < q" and x: "x = of_int p / of_int q"
    by (rule quotient_of_denom_pos, rule quotient_of_div)
  from assms x q have p: "0 < p" by (simp add: zero_less_divide_iff)
  let ?d = "bitlen p - bitlen q"
  have fl: "floor_log2 x = (if 2 powi ?d \<le> x then ?d else ?d - 1)"
    by (simp add: floor_log2_def pq Let_def)
  have "2 powi (?d - 1) \<le> x"
  proof -
    from bitlen_bounds [OF p] have lo: "(2::int) ^ nat (bitlen p - 1) \<le> p" by simp
    from bitlen_bounds [OF q] have hi: "q < (2::int) ^ nat (bitlen q)" by simp
    from p have bp: "1 \<le> bitlen p" by (simp add: bitlen_alt_def)
    have bq: "0 \<le> bitlen q" by (rule bitlen_nonneg)
    have a: "(2::rat) powi (bitlen p - 1) \<le> of_int p"
    proof -
      have "(2::rat) powi (bitlen p - 1) = of_int (2 ^ nat (bitlen p - 1))"
        using bp by (simp add: power_int_def)
      also have "\<dots> \<le> of_int p" using lo by (simp only: of_int_le_iff)
      finally show ?thesis .
    qed
    have b: "(of_int q :: rat) \<le> 2 powi (bitlen q)"
    proof -
      have "(of_int q :: rat) \<le> of_int (2 ^ nat (bitlen q))"
        using hi by (simp only: of_int_le_iff)
      also have "\<dots> = 2 powi (bitlen q)" using bq by (simp add: power_int_def)
      finally show ?thesis .
    qed
    have "(2::rat) powi (?d - 1) = 2 powi (bitlen p - 1) / 2 powi (bitlen q)"
      using power_int_diff [of "2::rat" "bitlen p - 1" "bitlen q"] by (simp add: algebra_simps)
    also have "\<dots> \<le> of_int p / of_int q"
      using a b q p by (intro frac_le) simp_all
    finally show ?thesis using x by simp
  qed
  then show ?thesis by (simp add: fl)
qed

lemma round_half_even_le:
  assumes "x \<le> of_int m"
  shows "round_half_even x \<le> m"
proof -
  have "round_half_even x \<le> \<lceil>x\<rceil>"
  proof (cases "x - of_int \<lfloor>x\<rfloor> < 1 / 2")
    case True
    then have "round_half_even x = \<lfloor>x\<rfloor>" by (simp add: round_half_even_def Let_def)
    then show ?thesis by simp
  next
    case False
    then have "of_int \<lfloor>x\<rfloor> < x" by simp
    then have "\<lfloor>x\<rfloor> < \<lceil>x\<rceil>" by (simp add: less_ceiling_iff)
    moreover have "round_half_even x \<le> \<lfloor>x\<rfloor> + 1"
      by (simp add: round_half_even_def Let_def)
    ultimately show ?thesis by simp
  qed
  moreover have "\<lceil>x\<rceil> \<le> m" using assms by (simp add: ceiling_le_iff)
  ultimately show ?thesis by simp
qed

lemma round_half_even_ge:
  assumes "of_int m \<le> x"
  shows "m \<le> round_half_even x"
proof -
  have "\<lfloor>x\<rfloor> \<le> round_half_even x" by (simp add: round_half_even_def Let_def)
  moreover have "m \<le> \<lfloor>x\<rfloor>" using assms by (simp add: le_floor_iff)
  ultimately show ?thesis by simp
qed

lemma f32_round_between:
  assumes "\<bar>y\<bar> < 16777216" and "of_int a \<le> y" and "y \<le> of_int b"
  shows "of_int a \<le> f32_round y" and "f32_round y \<le> of_int b"
proof -
  have "of_int a \<le> f32_round y \<and> f32_round y \<le> of_int b"
  proof (cases "y = 0")
    case True
    with assms(2,3) show ?thesis by (simp add: f32_round_def)
  next
    case False
    let ?e = "floor_log2 \<bar>y\<bar>"
    let ?k = "max (- 149) (?e - 23)"
    let ?u = "(2::rat) powi ?k"
    from False have "0 < \<bar>y\<bar>" by simp
    from floor_log2_le [OF this] assms(1) have "(2::rat) powi ?e < 16777216" by simp
    also have "\<dots> = (2::rat) powi 24" by simp
    finally have "?e < 24" by (rule power_int_le_imp_less_exp [rotated]) simp_all
    then have k: "?k \<le> 0" by simp
    define n where "n = nat (- ?k)"
    have u: "?u = 1 / 2 ^ n"
      using k by (simp add: n_def power_int_def field_simps)
    have upos: "0 < ?u" by simp
    have m: "(of_int (c * 2 ^ n) :: rat) = of_int c / ?u" for c
      by (simp add: u)
    have "of_int a / ?u \<le> y / ?u"
      using assms(2) upos by (intro divide_right_mono) simp_all
    then have "of_int (a * 2 ^ n) \<le> y / ?u" by (simp only: m)
    then have lo: "a * 2 ^ n \<le> round_half_even (y / ?u)" by (rule round_half_even_ge)
    have "y / ?u \<le> of_int b / ?u"
      using assms(3) upos by (intro divide_right_mono) simp_all
    then have "y / ?u \<le> of_int (b * 2 ^ n)" by (simp only: m)
    then have hi: "round_half_even (y / ?u) \<le> b * 2 ^ n" by (rule round_half_even_le)
    from lo have "(of_int (a * 2 ^ n) :: rat) \<le> of_int (round_half_even (y / ?u))"
      by (simp only: of_int_le_iff)
    then have "(of_int (a * 2 ^ n) :: rat) * ?u \<le> of_int (round_half_even (y / ?u)) * ?u"
      using upos by (intro mult_right_mono) simp_all
    then have l: "of_int a \<le> of_int (round_half_even (y / ?u)) * ?u"
      by (simp add: u)
    from hi have "(of_int (round_half_even (y / ?u)) :: rat) \<le> of_int (b * 2 ^ n)"
      by (simp only: of_int_le_iff)
    then have "of_int (round_half_even (y / ?u)) * ?u \<le> (of_int (b * 2 ^ n) :: rat) * ?u"
      using upos by (intro mult_right_mono) simp_all
    then have h: "of_int (round_half_even (y / ?u)) * ?u \<le> of_int b"
      by (simp add: u)
    from l h False show ?thesis by (simp add: f32_round_def Let_def)
  qed
  then show "of_int a \<le> f32_round y" and "f32_round y \<le> of_int b" by simp_all
qed

lemma f32_round_bound:
  assumes "\<bar>y\<bar> \<le> 32767"
  shows "\<bar>f32_round y\<bar> \<le> 32767"
proof -
  from assms have "\<bar>y\<bar> < 16777216" "of_int (- 32767) \<le> y" "y \<le> of_int 32767"
    by linarith+
  from f32_round_between [OF this] show ?thesis by (simp add: abs_le_iff)
qed

lemma trunc_bound:
  assumes "\<bar>y\<bar> \<le> of_int m"
  shows "\<bar>trunc y\<bar> \<le> m"
proof (cases "0 \<le> y")
  case True
  then have "0 \<le> \<lfloor>y\<rfloor>" by simp
  moreover have "\<lfloor>y\<rfloor> \<le> m" using assms True by (simp add: floor_le_iff)
  ultimately show ?thesis using True by (simp add: trunc_def)
next
  case False
  then have "\<lceil>y\<rceil> \<le> 0" by (simp add: ceiling_le_iff)
  moreover have "- m \<le> \<lceil>y\<rceil>" using assms False by (simp add: le_ceiling_iff)
  ultimately show ?thesis using False by (simp add: trunc_def)
qed

lemma trunc_near:
  "\<bar>of_int (trunc y) - y\<bar> < 1"
  by (simp add: trunc_def) linarith

lemma to_pcm16_in_range:
  assumes "\<bar>x\<bar> \<le> 1"
  shows "sint (to_pcm16 x) = trunc (f32_mul x 32767)"
    and "- 32767 \<le> sint (to_pcm16 x)" and "sint (to_pcm16 x) \<le> 32767"
proof -
  from assms have "\<bar>x * 32767\<bar> \<le> 32767" by (simp add: abs_mult)
  then have "\<bar>f32_mul x 32767\<bar> \<le> of_int 32767"
    unfolding f32_mul_def by (simp add: f32_round_bound)
  then have t: "\<bar>trunc (f32_mul x 32767)\<bar> \<le> 32767" by (rule trunc_bound)
  then have "signed_take_bit 15 (trunc (f32_mul x 32767)) = trunc (f32_mul x 32767)"
    by (intro signed_take_bit_int_eq_self) simp_all
  then show s: "sint (to_pcm16 x) = trunc (f32_mul x 32767)"
    by (simp add: to_pcm16_def astype_int16_def sint_sbintrunc')
  from t show "- 32767 \<le> sint (to_pcm16 x)" "sint (to_pcm16 x) \<le> 32767"
    unfolding s by simp_all
qed

text \<open>
  The conversion keeps the low 16 bits: a product just beyond the 16-bit range comes
  out with the opposite sign.
\<close>

lemma sint_to_pcm16:
  "sint (to_pcm16 x) = (trunc (f32_mul x 32767) + 32768) mod 65536 - 32768"
proof -
  have "sint (to_pcm16 x) = signed_take_bit 15 (trunc (f32_mul x 32767))"
    by (simp add: to_pcm16_def astype_int16_def sint_sbintrunc')
  also have "\<dots> = take_bit 16 (trunc (f32_mul x 32767) + 2 ^ 15) - 2 ^ 15"
    using signed_take_bit_eq_take_bit_shift [of 15 "trunc (f32_mul x 32767)"] by simp
  also have "\<dots> = (trunc (f32_mul x 32767) + 32768) mod 65536 - 32768"
    by (simp add: take_bit_eq_mod)
  finally show ?thesis .
qed


lemma wrap_high:
  assumes "32768 \<le> (t::int)" and "t \<le> 65535"
  shows "(t + 32768) mod 65536 - 32768 = t - 65536"
proof -
  have "t + 32768 = (t - 32768) + 65536" by arith
  then have "(t + 32768) mod 65536 = ((t - 32768) + 65536) mod 65536"
    by (rule arg_cong [where f = "\<lambda>z. z mod 65536"])
  also have "\<dots> = (t - 32768) mod 65536" by (rule mod_add_self2)
  also have "\<dots> = t - 32768" using assms by (intro mod_pos_pos_trivial) simp_all
  finally show ?thesis by simp
qed

lemma wrap_low:
  assumes "- 65535 \<le> (t::int)" and "t \<le> - 32769"
  shows "(t + 32768) mod 65536 - 32768 = t + 65536"
proof -
  have "(t + 32768) mod 65536 = ((t + 32768) + 65536) mod 65536"
    by (rule mod_add_self2 [symmetric])
  also have "\<dots> = (t + 32768) + 65536" using assms by (intro mod_pos_pos_trivial) simp_all
  finally show ?thesis by simp
qed

lemma to_pcm16_wraps_down:
  assumes "32768 \<le> x * 32767" and "x * 32767 \<le> 65535"
  shows "sint (to_pcm16 x) = trunc (f32_mul x 32767) - 65536" and "sint (to_pcm16 x) < 0"
proof -
  have "\<bar>x * 32767\<bar> < 16777216" "of_int 32768 \<le> x * 32767" "x * 32767 \<le> of_int 65535"
    using assms by simp_all
  from f32_round_between [OF this]
  have f: "32768 \<le> f32_mul x 32767" "f32_mul x 32767 \<le> 65535"
    by (simp_all add: f32_mul_def)
  then have t: "32768 \<le> trunc (f32_mul x 32767)" "trunc (f32_mul x 32767) \<le> 65535"
    by (simp_all add: trunc_def le_floor_iff floor_le_iff)
  from wrap_high [OF t] show s: "sint (to_pcm16 x) = trunc (f32_mul x 32767) - 65536"
    by (simp only: sint_to_pcm16)
  from t show "sint (to_pcm16 x) < 0" unfolding s by simp
qed

lemma to_pcm16_wraps_up:
  assumes "- 65535 \<le> x * 32767" and "x * 32767 \<le> - 32769"
  shows "sint (to_pcm16 x) = trunc (f32_mul x 32767) + 65536" and "0 < sint (to_pcm16 x)"
proof -
  have "\<bar>x * 32767\<bar> < 16777216" "of_int (- 65535) \<le> x * 32767" "x * 32767 \<le> of_int (- 32769)"
    using assms by simp_all
  from f32_round_between [OF this]
  have f: "- 65535 \<le> f32_mul x 32767" "f32_mul x 32767 \<le> - 32769"
    by (simp_all add: f32_mul_def)
  then have t: "- 65535 \<le> trunc (f32_mul x 32767)" "trunc (f32_mul x 32767) \<le> - 32769"
    by (simp_all add: trunc_def le_ceiling_iff ceiling_le_iff)
  from wrap_low [OF t] show s: "sint (to_pcm16 x) = trunc (f32_mul x 32767) + 65536"
    by (simp only: sint_to_pcm16)
  from t show "0 < sint (to_pcm16 x)" unfolding s by simp
qed

subsection \<open>Evaluation of the concrete recorder\<close>

lemmas ex_defs = ex_session_def ex_recorder_def ex_config_def ex_env_def ex_time_def ex_stop_def
  ex_env_later_def ex_time_later_def ex_env_no_device_def ex_env_next_def ex_time_next_def
  ex_after_first_def ex_after_second_def ex_after_loud_def ex_after_silent_def
  ex_blocked_def ex_unblocked_def ex_after_record_def chunk_d_def
  init_def py_or_def chunk_a_def chunk_b_def chunk_c_def failing_callback_def quiet_callback_def

lemmas op_defs = start_recording_def stop_recording_def save_and_return_def save_wav_def
  process_audio_step_def process_audio_get_def audio_callback_def is_alive_def duration_of_def
  output_path_def strftime_def pad2_def pad4_def digit_def Let_def

lemma ex_start:
  "start_recording ex_recorder cb ex_env =
     (Inr ''recordings/recording_20240309_103015.wav'', snd (start_recording ex_recorder cb ex_env))"
  by (simp add: ex_defs op_defs)

lemma to_pcm16_values:
  "to_pcm16 (1 / 2) = 16383" "to_pcm16 (- (1 / 2)) = - 16383"
  "to_pcm16 (3 / 2) = - 16386" "to_pcm16 1 = 32767"
  "to_pcm16 0 = 0" "to_pcm16 (1 / 4) = 8191" "to_pcm16 (- 1) = - 32767"
  "to_pcm16 (- (3 / 2)) = 16386"
  by code_simp+

lemma spec_pcm16_values:
  "spec_pcm16 0 = 0" "spec_pcm16 (1 / 4) = 8192" "spec_pcm16 (- 1) = - 32767"
  "spec_pcm16 (3 / 2) = 32767" "spec_pcm16 1 = 32767"
  by code_simp+

section \<open>The claims\<close>

subsection \<open>C1: every chunk reaches the frames, once and in order\<close>

text \<open>
  C1 says that every chunk enqueued by the driver callback before stop is called is in
  the final \<open>frames\<close> exactly once and in arrival order. The code does so unless an
  exception ends the drain thread. Amended: when a session is started with no callback,
  or with one that raises nothing but \<^verbatim>\<open>queue.Empty\<close> on a recorder whose sample
  rate is not 0, then for every interleaving of driver calls and thread steps before the
  stop, stop_recording returns with the thread finished, the queue empty, and the frames
  equal to what was queued when the session started followed by the delivered chunks in
  arrival order.
\<close>

theorem chunks_reach_frames_in_order:
  assumes "start_recording s cb env = (Inr p, s1)" and "harmless s cb"
  shows "\<exists>r s'. stop_recording (run s1 es) senv = Some (r, s') \<and>
           processing_thread s' = Some Finished \<and> audio_queue s' = [] \<and>
           frames s' = audio_queue s @ delivered es"
proof -
  note ss = session_state [OF assms(1), of es]
  from stop_after_session [OF ss(1), of senv] ss(2)
  obtain s2 where stop: "stop_recording (run s1 es) senv = Some (save_and_return s2 senv)"
    and fq: "frames s2 @ audio_queue s2 = frames (run s1 es) @ audio_queue (run s1 es)"
    and q: "processing_thread s2 = Some Finished \<longrightarrow> audio_queue s2 = []"
    and u: "unharmed (run s1 es) \<longrightarrow> processing_thread s2 = Some Finished"
    by auto
  from u ss(6) [OF assms(2)] have fin: "processing_thread s2 = Some Finished" by simp
  with q have "audio_queue s2 = []" by simp
  with fq ss(5) have "frames s2 = audio_queue s @ delivered es" by simp
  with stop fin \<open>audio_queue s2 = []\<close> show ?thesis
    by (cases "save_and_return s2 senv") (use save_and_return_fields [of s2 senv] in auto)
qed

theorem chunks_reach_frames_in_order_witness:
  "start_recording ex_recorder (Some quiet_callback) ex_env =
     (Inr ''recordings/recording_20240309_103015.wav'',
      snd (start_recording ex_recorder (Some quiet_callback) ex_env)) \<and>
   harmless ex_recorder (Some quiet_callback) \<and>
   (\<exists>r s'. stop_recording (ex_session (Some quiet_callback)
        [Audio chunk_a False, Drain, Drain, Audio chunk_b False]) ex_stop = Some (r, s') \<and>
      processing_thread s' = Some Finished \<and> audio_queue s' = [] \<and>
      frames s' = [chunk_a, chunk_b])"
proof -
  have h: "harmless ex_recorder (Some quiet_callback)"
    by (simp add: harmless_def ex_defs)
  have q: "audio_queue ex_recorder = []"
    by (simp add: ex_defs)
  from chunks_reach_frames_in_order [OF ex_start h,
      of "[Audio chunk_a False, Drain, Drain, Audio chunk_b False]" ex_stop]
  show ?thesis using h q ex_start [of "Some quiet_callback"] by (simp add: ex_session_def)
qed

text \<open>
  Against C1 as stated: the callback raises on the first chunk, the thread ends, and the
  second chunk, delivered before the stop, is not in the frames.
\<close>

theorem chunk_lost_after_callback_error:
  "map_option (frames \<circ> snd)
     (stop_recording (ex_session (Some failing_callback)
        [Audio chunk_a False, Drain, Drain, Audio chunk_b False]) ex_stop) = Some [chunk_a] \<and>
   delivered [Audio chunk_a False, Drain, Drain, Audio chunk_b False] = [chunk_a, chunk_b]"
  by (simp add: ex_defs op_defs join.simps)

subsection \<open>C2: when the loop exits\<close>

text \<open>
  C2 says that the drain loop exits only with the flag false and the queue empty, and
  that therefore, when the join in stop_recording returns, every enqueued chunk is in
  the frames. The first half holds: the only step that makes the thread return is the
  test of the loop, taken with the flag false and the queue empty. The second half
  fails when an exception has ended the thread: the join returns then as well.
  Amended: when stop_recording is called on a running session, the join returns and the
  thread has ended; if it ended by returning (as it does whenever the callback can raise
  nothing but \<^verbatim>\<open>queue.Empty\<close>), the flag is false, the queue is empty and every chunk
  that was queued has been appended to the frames, in order.
\<close>

theorem drain_loop_exit:
  "(processing_thread s \<noteq> Some Finished \<and>
      processing_thread (process_audio_step s) = Some Finished) =
     (processing_thread s = Some AtWhile \<and> \<not> recording s \<and> audio_queue s = []) \<and>
   (recording s \<and> stream s \<noteq> None \<and> is_alive s \<longrightarrow>
      (\<exists>r s'. stop_recording s senv = Some (r, s') \<and> \<not> is_alive s' \<and>
         (harmless s (callback s) \<longrightarrow> processing_thread s' = Some Finished) \<and>
         (processing_thread s' = Some Finished \<longrightarrow>
            \<not> recording s' \<and> audio_queue s' = [] \<and> frames s' = frames s @ audio_queue s)))"
proof (intro conjI impI)
  show "(processing_thread s \<noteq> Some Finished \<and>
      processing_thread (process_audio_step s) = Some Finished) =
     (processing_thread s = Some AtWhile \<and> \<not> recording s \<and> audio_queue s = [])"
  proof
    assume "processing_thread s \<noteq> Some Finished \<and>
      processing_thread (process_audio_step s) = Some Finished"
    then show "processing_thread s = Some AtWhile \<and> \<not> recording s \<and> audio_queue s = []"
      using step_finishes [of s] by simp
  next
    assume "processing_thread s = Some AtWhile \<and> \<not> recording s \<and> audio_queue s = []"
    then show "processing_thread s \<noteq> Some Finished \<and>
      processing_thread (process_audio_step s) = Some Finished"
      by (simp add: process_audio_step_def)
  qed
next
  assume a: "recording s \<and> stream s \<noteq> None \<and> is_alive s"
  then have w: "at_work s" by (auto simp: at_work_def is_alive_def)
  from a have u: "harmless s (callback s) \<longrightarrow> unharmed s"
    by (auto simp: unharmed_def is_alive_def)
  from stop_after_session [OF w, of senv] a
  obtain s2 where stop: "stop_recording s senv = Some (save_and_return s2 senv)"
    and dead: "\<not> is_alive s2" and nr: "\<not> recording s2"
    and fq: "frames s2 @ audio_queue s2 = frames s @ audio_queue s"
    and q: "processing_thread s2 = Some Finished \<longrightarrow> audio_queue s2 = []"
    and fin: "unharmed s \<longrightarrow> processing_thread s2 = Some Finished"
    by auto
  note sf = save_and_return_fields [of s2 senv]
  show "\<exists>r s'. stop_recording s senv = Some (r, s') \<and> \<not> is_alive s' \<and>
         (harmless s (callback s) \<longrightarrow> processing_thread s' = Some Finished) \<and>
         (processing_thread s' = Some Finished \<longrightarrow>
            \<not> recording s' \<and> audio_queue s' = [] \<and> frames s' = frames s @ audio_queue s)"
  proof (intro exI conjI)
    show "stop_recording s senv = Some (fst (save_and_return s2 senv), snd (save_and_return s2 senv))"
      using stop by simp
    show "\<not> is_alive (snd (save_and_return s2 senv))"
      using dead sf by (simp add: is_alive_def)
    show "harmless s (callback s) \<longrightarrow> processing_thread (snd (save_and_return s2 senv)) = Some Finished"
      using u fin sf by simp
    show "processing_thread (snd (save_and_return s2 senv)) = Some Finished \<longrightarrow>
       \<not> recording (snd (save_and_return s2 senv)) \<and> audio_queue (snd (save_and_return s2 senv)) = [] \<and>
       frames (snd (save_and_return s2 senv)) = frames s @ audio_queue s"
      using sf q fq nr by auto
  qed
qed

theorem drain_loop_exit_witness:
  "recording (ex_session (Some quiet_callback) [Audio chunk_a False, Drain, Audio chunk_b False]) \<and>
   stream (ex_session (Some quiet_callback) [Audio chunk_a False, Drain, Audio chunk_b False]) \<noteq> None \<and>
   is_alive (ex_session (Some quiet_callback) [Audio chunk_a False, Drain, Audio chunk_b False]) \<and>
   harmless (ex_session (Some quiet_callback) [Audio chunk_a False, Drain, Audio chunk_b False])
     (Some quiet_callback) \<and>
   (\<exists>r s'. stop_recording (ex_session (Some quiet_callback)
        [Audio chunk_a False, Drain, Audio chunk_b False]) ex_stop = Some (r, s') \<and>
      processing_thread s' = Some Finished \<and> \<not> recording s' \<and> audio_queue s' = [] \<and>
      frames s' = [chunk_a, chunk_b])"
proof -
  let ?s = "ex_session (Some quiet_callback) [Audio chunk_a False, Drain, Audio chunk_b False]"
  have h: "recording ?s" "stream ?s \<noteq> None" "is_alive ?s" "callback ?s = Some quiet_callback"
    "harmless ?s (Some quiet_callback)" "frames ?s @ audio_queue ?s = [chunk_a, chunk_b]"
    by (simp_all add: ex_defs op_defs harmless_def)
  from drain_loop_exit [of ?s ex_stop] h show ?thesis
    by (auto simp del: run.simps)
qed

text \<open>
  Against C2 as stated: the callback raises on the first of three chunks; the join
  returns, stop_recording returns the path, and two chunks are still in the queue.
\<close>

theorem queue_left_after_join:
  "map_option (audio_queue \<circ> snd)
     (stop_recording (ex_session (Some failing_callback)
        [Audio chunk_a False, Audio chunk_b False, Audio chunk_c False, Drain, Drain]) ex_stop) = Some [chunk_b, chunk_c] \<and>
   map_option (is_alive \<circ> snd)
     (stop_recording (ex_session (Some failing_callback)
        [Audio chunk_a False, Audio chunk_b False, Audio chunk_c False, Drain, Drain]) ex_stop) = Some False \<and>
   map_option fst
     (stop_recording (ex_session (Some failing_callback)
        [Audio chunk_a False, Audio chunk_b False, Audio chunk_c False, Drain, Drain]) ex_stop) =
     Some (Inr ''recordings/recording_20240309_103015.wav'')"
  by (simp add: ex_defs op_defs join.simps)

subsection \<open>C4: an exception of the progress callback\<close>

text \<open>
  C4 says that every exception raised by the progress callback is caught by the drain
  thread, which continues. The loop has one handler, for \<^verbatim>\<open>queue.Empty\<close>. Amended: when
  the callback raises while a chunk is processed, the chunk has already been appended to
  the frames; if the exception is \<^verbatim>\<open>queue.Empty\<close> the loop continues; any other exception
  leaves \<^verbatim>\<open>_process_audio\<close> and ends the thread, so that a join returns at once and,
  whatever the driver delivers afterwards, no further chunk is appended to the frames.
\<close>

theorem callback_error_ends_thread:
  assumes "processing_thread s = Some AtGet" and "audio_queue s = data # rest"
    and "callback s = Some f" and "sample_rate s \<noteq> 0"
    and "f (of_int (int (length (frames s) + 1) * chunk_size s) / of_int (sample_rate s)) (length data) = Some e"
  shows "frames (process_audio_step s) = frames s @ [data] \<and>
         audio_queue (process_audio_step s) = rest \<and>
         processing_thread (process_audio_step s) = Some (if e = QueueEmpty then AtWhile else Died e) \<and>
         (e \<noteq> QueueEmpty \<longrightarrow>
            join (process_audio_step s) = Some (process_audio_step s) \<and>
            (\<forall>es. frames (run (process_audio_step s) es) = frames s @ [data] \<and>
                  processing_thread (run (process_audio_step s) es) = Some (Died e)))"
proof -
  let ?s' = "process_audio_step s"
  have a: "frames ?s' = frames s @ [data]" "audio_queue ?s' = rest"
    "processing_thread ?s' = Some (if e = QueueEmpty then AtWhile else Died e)"
    using assms by (simp_all add: process_audio_step_def process_audio_get_def duration_of_def Let_def)
  have b: "join ?s' = Some ?s' \<and>
            (\<forall>es. frames (run ?s' es) = frames s @ [data] \<and> processing_thread (run ?s' es) = Some (Died e))"
    if "e \<noteq> QueueEmpty"
  proof -
    from a that have dead: "\<not> is_alive ?s'" by (simp add: is_alive_def)
    then have "join ?s' = Some ?s'" by (simp add: join.simps)
    with dead_thread_run [OF dead] a that show ?thesis by simp
  qed
  from a b show ?thesis by blast
qed

theorem callback_error_ends_thread_witness:
  "processing_thread (ex_session (Some failing_callback) [Audio chunk_a False, Audio chunk_b False, Drain]) = Some AtGet \<and>
   audio_queue (ex_session (Some failing_callback) [Audio chunk_a False, Audio chunk_b False, Drain]) = [chunk_a, chunk_b] \<and>
   callback (ex_session (Some failing_callback) [Audio chunk_a False, Audio chunk_b False, Drain]) = Some failing_callback \<and>
   failing_callback (8 / 125) 2 = Some (OtherError ''observer failed'') \<and>
   OtherError ''observer failed'' \<noteq> QueueEmpty \<and>
   frames (ex_session (Some failing_callback) [Audio chunk_a False, Audio chunk_b False, Drain, Drain, Drain, Drain]) = [chunk_a] \<and>
   processing_thread (ex_session (Some failing_callback) [Audio chunk_a False, Audio chunk_b False, Drain, Drain, Drain, Drain]) =
     Some (Died (OtherError ''observer failed''))"
proof -
  let ?s = "ex_session (Some failing_callback) [Audio chunk_a False, Audio chunk_b False, Drain]"
  have h: "processing_thread ?s = Some AtGet" "audio_queue ?s = chunk_a # [chunk_b]"
    "callback ?s = Some failing_callback" "sample_rate ?s \<noteq> 0"
    "failing_callback (of_int (int (length (frames ?s) + 1) * chunk_size ?s) / of_int (sample_rate ?s))
       (length chunk_a) = Some (OtherError ''observer failed'')"
    by (simp_all add: ex_defs op_defs)
  have r: "ex_session (Some failing_callback) [Audio chunk_a False, Audio chunk_b False, Drain, Drain, Drain, Drain]
    = run (process_audio_step ?s) [Drain, Drain]"
    by (simp add: ex_session_def)
  have f: "frames ?s = []" by (simp add: ex_defs op_defs)
  from callback_error_ends_thread [OF h]
  have "frames (run (process_audio_step ?s) [Drain, Drain]) = frames ?s @ [chunk_a] \<and>
      processing_thread (run (process_audio_step ?s) [Drain, Drain]) =
        Some (Died (OtherError ''observer failed''))"
    by (simp del: run.simps)
  then show ?thesis
    using h(1,2,3) f unfolding r by (simp del: run.simps add: failing_callback_def)
qed

text \<open>
  Against C4 as stated: the callback raises on the first chunk; the thread is ended by
  that exception and the two chunks delivered afterwards stay in the queue.
\<close>

theorem callback_error_not_caught:
  "processing_thread (ex_session (Some failing_callback) [Audio chunk_a False, Drain, Drain, Audio chunk_b False, Audio chunk_c False, Drain, Drain, Drain]) =
     Some (Died (OtherError ''observer failed'')) \<and>
   frames (ex_session (Some failing_callback) [Audio chunk_a False, Drain, Drain, Audio chunk_b False, Audio chunk_c False, Drain, Drain, Drain]) = [chunk_a] \<and>
   audio_queue (ex_session (Some failing_callback) [Audio chunk_a False, Drain, Drain, Audio chunk_b False, Audio chunk_c False, Drain, Drain, Drain]) = [chunk_b, chunk_c]"
  by (simp add: ex_defs op_defs)

subsection \<open>C5: the guards of start and stop\<close>

text \<open>
  C5: start_recording raises the already-recording error if and only if the flag is
  true when it is called, and stop_recording raises the not-recording error if and only
  if the flag is false; when they do, the recorder is left as it was.
\<close>

theorem guards_of_start_and_stop:
  "(fst (start_recording s cb env) = Inl AlreadyRecording) = recording s \<and>
   (map_option fst (stop_recording s senv) = Some (Inl NotRecording)) = (\<not> recording s) \<and>
   (start_recording s cb env = (Inl AlreadyRecording, s)) = recording s \<and>
   (stop_recording s senv = Some (Inl NotRecording, s)) = (\<not> recording s)"
proof -
  have a: "(fst (start_recording s cb env) = Inl AlreadyRecording) = recording s"
    by (simp add: start_recording_def Let_def)
  have b: "(start_recording s cb env = (Inl AlreadyRecording, s)) = recording s"
    by (simp add: start_recording_def Let_def)
  have c: "map_option fst (stop_recording s senv) \<noteq> Some (Inl NotRecording)" if "recording s"
  proof (cases "stream s")
    case None
    with that show ?thesis by (simp add: stop_recording_def)
  next
    case (Some st)
    with that show ?thesis
      using save_and_return_not_guard
      by (auto simp: stop_recording_def Let_def split: option.splits) (metis fst_conv)+
  qed
  have d: "stop_recording s senv = Some (Inl NotRecording, s)" if "\<not> recording s"
    using that by (simp add: stop_recording_def)
  from c d have e: "(map_option fst (stop_recording s senv) = Some (Inl NotRecording)) = (\<not> recording s)"
    by force
  from c d have f: "(stop_recording s senv = Some (Inl NotRecording, s)) = (\<not> recording s)"
    by force
  from a b e f show ?thesis by simp
qed

subsection \<open>C10: a stream that cannot be opened\<close>





subsection \<open>C6: stopping a session that captured nothing\<close>

text \<open>
  C6 says that stop_recording on an active session in which no chunk was captured does
  not raise, writes no file, so that the path returned by start_recording does not
  exist on disk, and returns that path. The code writes nothing, but the path may exist
  already: the name is unique only to the second. Amended: when stop_recording is called
  on an active session in which no chunk was captured (nothing was queued at the start
  and the driver delivered nothing), it does not raise, writes no file, and returns the
  path that start_recording returned; the files are exactly those that existed before
  the session, so the path exists on disk if and only if it existed before.
\<close>

theorem stop_with_no_chunks:
  assumes "start_recording s cb env = (Inr p, s1)" and "audio_queue s = []" and "delivered es = []"
  shows "\<exists>s'. stop_recording (run s1 es) senv = Some (Inr p, s') \<and> frames s' = [] \<and>
           files s' = files s \<and> (files s' p = None) = (files s p = None)"
proof -
  note ss = session_state [OF assms(1), of es]
  from stop_after_session [OF ss(1), of senv] ss(2)
  obtain s2 where stop: "stop_recording (run s1 es) senv = Some (save_and_return s2 senv)"
    and fq: "frames s2 @ audio_queue s2 = frames (run s1 es) @ audio_queue (run s1 es)"
    and o: "output_file s2 = output_file (run s1 es)" and fl: "files s2 = files (run s1 es)"
    by auto
  from fq ss(5) assms(2,3) have "frames s2 = []" by simp
  with o ss(3) have "save_and_return s2 senv = (Inr p, s2)"
    by (simp add: save_and_return_def)
  with stop fl ss(4) \<open>frames s2 = []\<close> show ?thesis by simp
qed

theorem stop_with_no_chunks_witness:
  "start_recording ex_recorder None ex_env =
     (Inr ''recordings/recording_20240309_103015.wav'', snd (start_recording ex_recorder None ex_env)) \<and>
   audio_queue ex_recorder = [] \<and> delivered [Drain, Drain, Drain] = [] \<and>
   files ex_recorder ''recordings/recording_20240309_103015.wav'' = None \<and>
   (\<exists>s'. stop_recording (ex_session None [Drain, Drain, Drain]) ex_stop =
      Some (Inr ''recordings/recording_20240309_103015.wav'', s') \<and> frames s' = [] \<and>
      files s' ''recordings/recording_20240309_103015.wav'' = None)"
proof -
  have q: "audio_queue ex_recorder = []" "files ex_recorder = Map.empty"
    by (simp_all add: ex_defs)
  have d: "delivered [Drain, Drain, Drain] = []" by simp
  from stop_with_no_chunks [OF ex_start [of None] q(1) d, where senv = ex_stop]
  obtain s' where "stop_recording (ex_session None [Drain, Drain, Drain]) ex_stop =
      Some (Inr ''recordings/recording_20240309_103015.wav'', s')" "frames s' = []"
    "files s' = files ex_recorder"
    by (auto simp add: ex_session_def simp del: run.simps)
  with q d ex_start [of None] show ?thesis by (auto simp del: run.simps)
qed

text \<open>
  Against C6 as stated: a session that captures nothing is started in the same second
  as an earlier session that recorded \<open>chunk_a\<close>; stop_recording returns the path, and
  the file at that path exists, holding the samples of the earlier session.
\<close>

theorem empty_session_path_exists:
  "fst (start_recording ex_after_first None ex_env_later) =
     Inr ''recordings/recording_20240309_103015.wav'' \<and>
   audio_queue ex_after_first = [] \<and> delivered [Drain, Drain] = [] \<and>
   map_option fst (stop_recording
       (run (snd (start_recording ex_after_first None ex_env_later)) [Drain, Drain]) ex_stop) =
     Some (Inr ''recordings/recording_20240309_103015.wav'') \<and>
   frames ex_after_silent = [] \<and>
   map_option pcm (files ex_after_silent ''recordings/recording_20240309_103015.wav'') =
     Some [16383, - 16383]"
  by (simp add: ex_defs op_defs join.simps to_pcm16_values)

subsection \<open>C7: record stops on every exit path\<close>

text \<open>
  C7 says that in every call of record in which start_recording succeeds,
  stop_recording is invoked on every exit path, so that the captured audio is flushed
  and saved and the path is returned. stop_recording is invoked on every path, but
  what was captured is flushed only if no exception has ended the drain thread, and it
  is saved only if the write does not fail. Amended: in every call of record in which
  start_recording succeeds, whatever the driver and the thread do during the wait and
  however the wait ends (the sleep returns, it is interrupted by KeyboardInterrupt, or
  it raises anything else), the result of record is the result of stop_recording called
  after the wait. When moreover the callback cannot end the thread (there is none, or it
  raises nothing but \<^verbatim>\<open>queue.Empty\<close> on a recorder whose sample rate is not 0) and the
  write does not fail, record returns the path that start_recording computed, with the
  stream closed, the thread finished, the queue empty and the frames equal to what was
  queued at the start followed by every delivered chunk in order; when there are any,
  the file at that path has the recorder's channel count and sample rate, two bytes
  per sample and, for samples below 65536 in magnitude, the converted value of every
  captured sample in order, which for a sample in \<open>[-1, 1]\<close> is the float32 product with
  32767 with its fraction dropped.
\<close>

theorem record_always_stops:
  assumes "start_recording s cb env = (Inr p, s1)"
  shows "record_for s d cb env es outcome senv = stop_recording (run s1 es) senv \<and>
         (harmless s cb \<and> \<not> write_fails senv \<longrightarrow>
            (\<exists>s'. record_for s d cb env es outcome senv = Some (Inr p, s') \<and>
               \<not> recording s' \<and> stream s' = Some Closed \<and>
               processing_thread s' = Some Finished \<and> audio_queue s' = [] \<and>
               frames s' = audio_queue s @ delivered es \<and>
               (audio_queue s @ delivered es \<noteq> [] \<longrightarrow>
                  map_option nchannels (files s' p) = Some (channels s) \<and>
                  map_option sampwidth (files s' p) = Some 2 \<and>
                  map_option framerate (files s' p) = Some (sample_rate s) \<and>
                  ((\<forall>x \<in> set (concat (concat (audio_queue s @ delivered es))). \<bar>x\<bar> < 65536) \<longrightarrow>
                     map_option pcm (files s' p) =
                       Some (map to_pcm16 (concat (concat (audio_queue s @ delivered es))))) \<and>
                  (\<forall>x \<in> set (concat (concat (audio_queue s @ delivered es))). \<bar>x\<bar> \<le> 1 \<longrightarrow>
                     sint (to_pcm16 x) = trunc (f32_mul x 32767)))))"
proof -
  have eq: "record_for s d cb env es outcome senv = stop_recording (run s1 es) senv"
    using assms by (cases outcome) (simp_all add: record_for_def)
  note ss = session_state [OF assms, of es]
  note st = start_recording_success [OF assms]
  let ?all = "audio_queue s @ delivered es"
  have "\<exists>s'. record_for s d cb env es outcome senv = Some (Inr p, s') \<and>
               \<not> recording s' \<and> stream s' = Some Closed \<and>
               processing_thread s' = Some Finished \<and> audio_queue s' = [] \<and>
               frames s' = ?all \<and>
               (?all \<noteq> [] \<longrightarrow>
                  map_option nchannels (files s' p) = Some (channels s) \<and>
                  map_option sampwidth (files s' p) = Some 2 \<and>
                  map_option framerate (files s' p) = Some (sample_rate s) \<and>
                  ((\<forall>x \<in> set (concat (concat ?all)). \<bar>x\<bar> < 65536) \<longrightarrow>
                     map_option pcm (files s' p) = Some (map to_pcm16 (concat (concat ?all)))) \<and>
                  (\<forall>x \<in> set (concat (concat ?all)). \<bar>x\<bar> \<le> 1 \<longrightarrow>
                     sint (to_pcm16 x) = trunc (f32_mul x 32767)))"
    if hw: "harmless s cb \<and> \<not> write_fails senv"
  proof -
    from hw have h: "harmless s cb" and w: "\<not> write_fails senv" by simp_all
    from stop_after_session [OF ss(1), of senv] ss(2)
    obtain s2 where stop: "stop_recording (run s1 es) senv = Some (save_and_return s2 senv)"
      and nr: "\<not> recording s2" and cl: "stream s2 = Some Closed"
      and fq: "frames s2 @ audio_queue s2 = frames (run s1 es) @ audio_queue (run s1 es)"
      and q: "processing_thread s2 = Some Finished \<longrightarrow> audio_queue s2 = []"
      and u: "unharmed (run s1 es) \<longrightarrow> processing_thread s2 = Some Finished"
      and o: "output_file s2 = output_file (run s1 es)"
      and c: "sample_rate s2 = sample_rate (run s1 es)" "channels s2 = channels (run s1 es)"
      by auto
    from u ss(6) [OF h] have fin: "processing_thread s2 = Some Finished" by simp
    with q have qe: "audio_queue s2 = []" by simp
    with fq ss(5) have fr: "frames s2 = ?all" by simp
    from o ss(3) have op: "output_file s2 = Some p" by simp
    note sr = save_and_return_written [OF w op]
    note sf = save_and_return_fields [of s2 senv]
    let ?s' = "snd (save_and_return s2 senv)"
    have 1: "record_for s d cb env es outcome senv = Some (Inr p, ?s')"
      using eq stop sr(1) by (simp add: prod_eq_iff)
    have 2: "\<not> recording ?s'" "stream ?s' = Some Closed" "processing_thread ?s' = Some Finished"
      "audio_queue ?s' = []" "frames ?s' = ?all"
      using nr cl fin qe fr sf by simp_all
    have 3: "map_option nchannels (files ?s' p) = Some (channels s) \<and>
        map_option sampwidth (files ?s' p) = Some 2 \<and>
        map_option framerate (files ?s' p) = Some (sample_rate s) \<and>
        map_option pcm (files ?s' p) = Some (map to_pcm16 (concat (concat ?all)))"
      if "?all \<noteq> []"
      using that sr(2) fr c st by (simp add: map_concat)
    have 4: "sint (to_pcm16 x) = trunc (f32_mul x 32767)" if "\<bar>x\<bar> \<le> 1" for x
      using that by (rule to_pcm16_in_range(1))
    from 1 2 3 4 show ?thesis by blast
  qed
  with eq show ?thesis by blast
qed


theorem record_always_stops_witness:
  "start_recording ex_recorder None ex_env =
     (Inr ''recordings/recording_20240309_103015.wav'', snd (start_recording ex_recorder None ex_env)) \<and>
   harmless ex_recorder None \<and> \<not> write_fails ex_stop \<and>
   audio_queue ex_recorder @ delivered [Audio chunk_a False, Drain, Audio chunk_c False] =
     [chunk_a, chunk_c] \<and>
   concat (concat [chunk_a, chunk_c]) = [1 / 2, - (1 / 2), 0, 1 / 4, - 1] \<and>
   (\<exists>s'. record_for ex_recorder (Some 1) None ex_env [Audio chunk_a False, Drain, Audio chunk_c False]
        Interrupted ex_stop =
      Some (Inr ''recordings/recording_20240309_103015.wav'', s') \<and>
      processing_thread s' = Some Finished \<and> audio_queue s' = [] \<and>
      frames s' = [chunk_a, chunk_c] \<and>
      map_option nchannels (files s' ''recordings/recording_20240309_103015.wav'') = Some 1 \<and>
      map_option sampwidth (files s' ''recordings/recording_20240309_103015.wav'') = Some 2 \<and>
      map_option framerate (files s' ''recordings/recording_20240309_103015.wav'') = Some 16000 \<and>
      map_option pcm (files s' ''recordings/recording_20240309_103015.wav'') =
        Some [16383, - 16383, 0, 8191, - 32767])"
proof -
  have h: "harmless ex_recorder None \<and> \<not> write_fails ex_stop"
    by (simp add: harmless_def ex_defs)
  have c: "channels ex_recorder = 1" "sample_rate ex_recorder = 16000"
    "audio_queue ex_recorder = []"
    by (simp_all add: ex_defs)
  have d: "audio_queue ex_recorder @ delivered [Audio chunk_a False, Drain, Audio chunk_c False] =
     [chunk_a, chunk_c]"
    using c(3) by simp
  have b: "\<forall>x \<in> set (concat (concat [chunk_a, chunk_c])). \<bar>x\<bar> < 65536"
    "\<forall>x \<in> set (concat (concat [chunk_a, chunk_c])). \<bar>x\<bar> \<le> 1"
    by (simp_all add: chunk_a_def chunk_c_def)
  have v: "map to_pcm16 (concat (concat [chunk_a, chunk_c])) = [16383, - 16383, 0, 8191, - 32767]"
    by (simp add: chunk_a_def chunk_c_def to_pcm16_values)
  from record_always_stops [OF ex_start [of None], where senv = ex_stop and d = "Some 1"
      and es = "[Audio chunk_a False, Drain, Audio chunk_c False]" and outcome = Interrupted] h
  obtain s' where r: "record_for ex_recorder (Some 1) None ex_env
        [Audio chunk_a False, Drain, Audio chunk_c False] Interrupted ex_stop =
      Some (Inr ''recordings/recording_20240309_103015.wav'', s')"
    and f: "processing_thread s' = Some Finished" "audio_queue s' = []"
      "frames s' = audio_queue ex_recorder @ delivered [Audio chunk_a False, Drain, Audio chunk_c False]"
    and fl: "audio_queue ex_recorder @ delivered [Audio chunk_a False, Drain, Audio chunk_c False] \<noteq> [] \<longrightarrow>
      map_option nchannels (files s' ''recordings/recording_20240309_103015.wav'') =
        Some (channels ex_recorder) \<and>
      map_option sampwidth (files s' ''recordings/recording_20240309_103015.wav'') = Some 2 \<and>
      map_option framerate (files s' ''recordings/recording_20240309_103015.wav'') =
        Some (sample_rate ex_recorder) \<and>
      ((\<forall>x \<in> set (concat (concat (audio_queue ex_recorder @
            delivered [Audio chunk_a False, Drain, Audio chunk_c False]))). \<bar>x\<bar> < 65536) \<longrightarrow>
         map_option pcm (files s' ''recordings/recording_20240309_103015.wav'') =
           Some (map to_pcm16 (concat (concat (audio_queue ex_recorder @
             delivered [Audio chunk_a False, Drain, Audio chunk_c False])))))"
    by blast
  from fl b(1) have fv: "map_option nchannels (files s' ''recordings/recording_20240309_103015.wav'') = Some 1 \<and>
      map_option sampwidth (files s' ''recordings/recording_20240309_103015.wav'') = Some 2 \<and>
      map_option framerate (files s' ''recordings/recording_20240309_103015.wav'') = Some 16000 \<and>
      map_option pcm (files s' ''recordings/recording_20240309_103015.wav'') =
        Some [16383, - 16383, 0, 8191, - 32767]"
    unfolding d c(1,2) v by simp
  have l: "concat (concat [chunk_a, chunk_c]) = [1 / 2, - (1 / 2), 0, 1 / 4, - 1]"
    by (simp add: chunk_a_def chunk_c_def)
  with fv r f h d ex_start [of None] show ?thesis
    unfolding d by (simp del: delivered.simps)
qed

text \<open>
  Against C7 as stated: the callback raises on the first of two delivered chunks;
  record returns the path, the second chunk is still in the queue and the file holds
  the samples of the first chunk only.
\<close>

theorem record_leaves_chunk_unsaved:
  "map_option fst (record_for ex_recorder (Some 1) (Some failing_callback) ex_env
       [Audio chunk_a False, Audio chunk_b False, Drain, Drain] Slept ex_stop) =
     Some (Inr ''recordings/recording_20240309_103015.wav'') \<and>
   delivered [Audio chunk_a False, Audio chunk_b False, Drain, Drain] = [chunk_a, chunk_b] \<and>
   frames ex_after_record = [chunk_a] \<and> audio_queue ex_after_record = [chunk_b] \<and>
   map_option pcm (files ex_after_record ''recordings/recording_20240309_103015.wav'') =
     Some [16383, - 16383]"
  by (simp add: record_for_def ex_defs op_defs join.simps to_pcm16_values)

subsection \<open>C8: the calls of the progress callback\<close>

text \<open>
  C8: in a session started with a callback on a recorder whose sample rate is not 0, at
  every moment and after stop_recording, the calls the callback has received in the
  session are exactly one per chunk in the frames, in order, the \<open>i\<close>-th with the
  duration \<open>i * chunk_size / sample_rate\<close> and the number of frames of the \<open>i\<close>-th chunk;
  with a positive sample rate and a chunk size that is not negative the durations are
  non-decreasing.
\<close>

theorem progress_callback_calls:
  assumes "start_recording s (Some f) env = (Inr p, s1)" and "sample_rate s \<noteq> 0"
  shows "callback_calls (run s1 es) = callback_calls s @ expected_calls (run s1 es) \<and>
         length (expected_calls (run s1 es)) = length (frames (run s1 es)) \<and>
         (\<exists>r s'. stop_recording (run s1 es) senv = Some (r, s') \<and>
            callback_calls s' = callback_calls s @ expected_calls s' \<and>
            length (expected_calls s') = length (frames s') \<and>
            (0 < sample_rate s \<and> 0 \<le> chunk_size s \<longrightarrow> sorted (map fst (expected_calls s'))))"
proof -
  note st = start_recording_success [OF assms(1)]
  note ss = session_state [OF assms(1), of es]
  let ?base = "callback_calls s"
  let ?t = "run s1 es"
  let ?t1 = "?t\<lparr>stream := Some Closed, recording := False\<rparr>"
  have "calls_match ?base s1"
    using st assms(2) by (simp add: calls_match_def expected_calls_def)
  then have m: "calls_match ?base ?t"
    by (rule run_invariant) (simp add: run_event_calls_match)
  then have m1: "calls_match ?base ?t1"
    by (simp add: calls_match_def expected_calls_def)
  from stop_after_session [OF ss(1), of senv] ss(2)
  obtain s2 where stop: "stop_recording ?t senv = Some (save_and_return s2 senv)"
    and j: "join ?t1 = Some s2"
    and c: "sample_rate s2 = sample_rate ?t" "chunk_size s2 = chunk_size ?t"
    by auto
  have m2: "calls_match ?base s2"
    by (rule join_invariant [where P = "calls_match ?base", OF j m1]) (rule step_calls_match)
  let ?s' = "snd (save_and_return s2 senv)"
  note sf = save_and_return_fields [of s2 senv]
  have e: "expected_calls ?s' = expected_calls s2"
    using sf by (simp add: expected_calls_def)
  have srt: "sorted (map fst (expected_calls ?s'))" if "0 < sample_rate s \<and> 0 \<le> chunk_size s"
    using that c st sf by (intro sorted_expected_calls) simp_all
  have "stop_recording ?t senv = Some (fst (save_and_return s2 senv), ?s') \<and>
      callback_calls ?s' = ?base @ expected_calls ?s' \<and>
      length (expected_calls ?s') = length (frames ?s') \<and>
      (0 < sample_rate s \<and> 0 \<le> chunk_size s \<longrightarrow> sorted (map fst (expected_calls ?s')))"
    using stop m2 e sf srt by (simp add: calls_match_def) (simp add: expected_calls_def)
  moreover have "callback_calls ?t = ?base @ expected_calls ?t"
    using m by (simp add: calls_match_def)
  moreover have "length (expected_calls ?t) = length (frames ?t)"
    by (simp add: expected_calls_def)
  ultimately show ?thesis by blast
qed

theorem progress_callback_calls_witness:
  "start_recording ex_recorder (Some quiet_callback) ex_env =
     (Inr ''recordings/recording_20240309_103015.wav'',
      snd (start_recording ex_recorder (Some quiet_callback) ex_env)) \<and>
   sample_rate ex_recorder \<noteq> 0 \<and> 0 < sample_rate ex_recorder \<and> 0 \<le> chunk_size ex_recorder \<and>
   callback_calls (ex_session (Some quiet_callback)
      [Audio chunk_a False, Drain, Drain, Audio chunk_c False, Drain, Drain]) =
     [(8 / 125, 2), (16 / 125, 3)] \<and>
   (\<exists>r s'. stop_recording (ex_session (Some quiet_callback)
        [Audio chunk_a False, Drain, Drain, Audio chunk_c False, Audio chunk_b False, Drain, Drain]) ex_stop = Some (r, s') \<and>
      callback_calls s' = expected_calls s' \<and> length (callback_calls s') = length (frames s') \<and>
      sorted (map fst (callback_calls s')))"
proof -
  have h: "sample_rate ex_recorder \<noteq> 0" "0 < sample_rate ex_recorder" "0 \<le> chunk_size ex_recorder"
    "callback_calls ex_recorder = []"
    by (simp_all add: ex_defs)
  have a: "callback_calls (ex_session (Some quiet_callback)
      [Audio chunk_a False, Drain, Drain, Audio chunk_c False, Drain, Drain]) =
     [(8 / 125, 2), (16 / 125, 3)]"
    by (simp add: ex_defs op_defs)
  from progress_callback_calls [OF ex_start [of "Some quiet_callback"] h(1),
    where es = "[Audio chunk_a False, Drain, Drain, Audio chunk_c False, Audio chunk_b False, Drain, Drain]"
      and senv = ex_stop] h
  have "\<exists>r s'. stop_recording (ex_session (Some quiet_callback)
        [Audio chunk_a False, Drain, Drain, Audio chunk_c False, Audio chunk_b False, Drain, Drain]) ex_stop = Some (r, s') \<and>
      callback_calls s' = expected_calls s' \<and> length (callback_calls s') = length (frames s') \<and>
      sorted (map fst (callback_calls s'))"
    by (auto simp add: ex_session_def simp del: run.simps)
  with h a ex_start [of "Some quiet_callback"] show ?thesis by simp
qed

subsection \<open>C9: the output paths of two sessions\<close>

text \<open>
  C9 says that two sessions started on the same recorder get distinct output paths, so
  that a later session never overwrites the file of an earlier one. The name is the
  local time of the start, printed down to the second. Amended: for two sessions
  started in the same output directory at times whose fields fit the widths of the
  format (a year from 1000 to 9999), the paths are equal exactly when the two start times
  agree in year, month, day, hour, minute and second; sessions started at different
  seconds get distinct paths.
\<close>

theorem output_paths_of_two_sessions:
  assumes "start_recording s cb env = (Inr p, s1)" and "start_recording s' cb' env' = (Inr p', s1')"
    and "output_dir s' = output_dir s"
    and "in_format_range (datetime_now env)" and "in_format_range (datetime_now env')"
  shows "(p = p') = same_second (datetime_now env) (datetime_now env')"
proof -
  have "p = output_path (output_dir s) (datetime_now env)"
    by (rule start_recording_success(15) [OF assms(1)])
  moreover have "p' = output_path (output_dir s) (datetime_now env')"
    using start_recording_success(15) [OF assms(2)] assms(3) by simp
  ultimately show ?thesis
    using strftime_inj [OF assms(4,5)] by (simp add: output_path_def)
qed


theorem output_paths_of_two_sessions_witness:
  "start_recording ex_recorder None ex_env =
     (Inr ''recordings/recording_20240309_103015.wav'', snd (start_recording ex_recorder None ex_env)) \<and>
   start_recording ex_after_first None ex_env_next =
     (Inr ''recordings/recording_20240309_103016.wav'',
      snd (start_recording ex_after_first None ex_env_next)) \<and>
   output_dir ex_after_first = output_dir ex_recorder \<and>
   in_format_range (datetime_now ex_env) \<and> in_format_range (datetime_now ex_env_next) \<and>
   \<not> same_second (datetime_now ex_env) (datetime_now ex_env_next) \<and>
   ''recordings/recording_20240309_103015.wav'' \<noteq> ''recordings/recording_20240309_103016.wav''"
proof -
  have a: "start_recording ex_after_first None ex_env_next =
     (Inr ''recordings/recording_20240309_103016.wav'',
      snd (start_recording ex_after_first None ex_env_next))"
    by (simp add: ex_defs op_defs join.simps)
  have d: "output_dir ex_after_first = output_dir ex_recorder"
    by (simp add: ex_defs op_defs join.simps)
  have r: "in_format_range (datetime_now ex_env)" "in_format_range (datetime_now ex_env_next)"
    by (simp_all add: ex_defs in_format_range_def)
  have n: "\<not> same_second (datetime_now ex_env) (datetime_now ex_env_next)"
    by (simp add: ex_defs same_second_def)
  from output_paths_of_two_sessions [OF ex_start [of None] a d r] n a d r ex_start [of None]
  show ?thesis by simp
qed

text \<open>
  Against C9 as stated: a second session started 0.9 s after the first, within the same
  second, is given the path of the first, and its samples replace those of the first in
  that file.
\<close>

theorem same_second_same_path:
  "fst (start_recording ex_recorder None ex_env) = Inr ''recordings/recording_20240309_103015.wav'' \<and>
   fst (start_recording ex_after_first None ex_env_later) =
     Inr ''recordings/recording_20240309_103015.wav'' \<and>
   microsecond (datetime_now ex_env) \<noteq> microsecond (datetime_now ex_env_later) \<and>
   map_option pcm (files ex_after_first ''recordings/recording_20240309_103015.wav'') =
     Some [16383, - 16383] \<and>
   map_option pcm (files ex_after_second ''recordings/recording_20240309_103015.wav'') =
     Some [- 16386, 32767]"
  by (simp add: ex_defs op_defs join.simps to_pcm16_values)

subsection \<open>C3: the conversion to 16-bit samples\<close>

text \<open>
  C3 says that stop converts each sample \<open>s\<close> of a non-empty session to
  \<open>round(s * 32767)\<close> clipped to the 16-bit range, so that a sample beyond 1 in magnitude
  is written as the bound and never wraps around. The code multiplies in float32 and
  converts with \<^verbatim>\<open>astype(np.int16)\<close>: no rounding to nearest and no clipping. Amended:
  when the write does not fail, stop_recording returns the path and, for a non-empty
  session whose samples are below 65536 in magnitude, the file holds for each
  accumulated sample \<open>s\<close>, in order, the float32 product \<open>s * 32767\<close> with its fraction
  dropped (towards zero) and then reduced modulo 65536 into \<open>[-32768, 32767]\<close>. For a
  sample with \<open>|s| \<le> 1\<close> that value is the truncated product itself, lies in
  \<open>[-32767, 32767]\<close> and is less than 1 away from the product. For a sample with
  \<open>32768 \<le> s * 32767 \<le> 65535\<close> it is the truncated product minus 65536, a negative
  number, and for a sample with \<open>-65535 \<le> s * 32767 \<le> -32769\<close> it is the truncated
  product plus 65536, a positive number: the value has wrapped around and is not the
  bound.
\<close>

theorem saved_pcm_samples:
  assumes "start_recording s cb env = (Inr p, s1)" and "\<not> write_fails senv"
  shows "\<exists>s'. stop_recording (run s1 es) senv = Some (Inr p, s') \<and>
           (frames s' \<noteq> [] \<longrightarrow>
              ((\<forall>x \<in> set (concat (concat (frames s'))). \<bar>x\<bar> < 65536) \<longrightarrow>
                 map_option pcm (files s' p) = Some (map to_pcm16 (concat (concat (frames s'))))) \<and>
              (\<forall>x \<in> set (concat (concat (frames s'))).
                 sint (to_pcm16 x) = (trunc (f32_mul x 32767) + 32768) mod 65536 - 32768) \<and>
              (\<forall>x \<in> set (concat (concat (frames s'))). \<bar>x\<bar> \<le> 1 \<longrightarrow>
                 sint (to_pcm16 x) = trunc (f32_mul x 32767) \<and>
                 - 32767 \<le> sint (to_pcm16 x) \<and> sint (to_pcm16 x) \<le> 32767 \<and>
                 \<bar>of_int (sint (to_pcm16 x)) - f32_mul x 32767\<bar> < 1) \<and>
              (\<forall>x \<in> set (concat (concat (frames s'))).
                 32768 \<le> x * 32767 \<and> x * 32767 \<le> 65535 \<longrightarrow>
                 sint (to_pcm16 x) = trunc (f32_mul x 32767) - 65536 \<and> sint (to_pcm16 x) < 0) \<and>
              (\<forall>x \<in> set (concat (concat (frames s'))).
                 - 65535 \<le> x * 32767 \<and> x * 32767 \<le> - 32769 \<longrightarrow>
                 sint (to_pcm16 x) = trunc (f32_mul x 32767) + 65536 \<and> 0 < sint (to_pcm16 x)))"
proof -
  note ss = session_state [OF assms(1), of es]
  from stop_after_session [OF ss(1), of senv] ss(2)
  obtain s2 where stop: "stop_recording (run s1 es) senv = Some (save_and_return s2 senv)"
    and o: "output_file s2 = output_file (run s1 es)"
    by auto
  from o ss(3) have op: "output_file s2 = Some p" by simp
  note sr = save_and_return_written [OF assms(2) op]
  note sf = save_and_return_fields [of s2 senv]
  let ?s' = "snd (save_and_return s2 senv)"
  have a: "stop_recording (run s1 es) senv = Some (Inr p, ?s')"
    using stop sr(1) by (simp add: prod_eq_iff)
  have b: "map_option pcm (files ?s' p) = Some (map to_pcm16 (concat (concat (frames ?s'))))"
    if "frames ?s' \<noteq> []"
    using that sr(2) sf by (simp add: map_concat)
  have c: "sint (to_pcm16 x) = trunc (f32_mul x 32767) \<and>
      - 32767 \<le> sint (to_pcm16 x) \<and> sint (to_pcm16 x) \<le> 32767 \<and>
      \<bar>of_int (sint (to_pcm16 x)) - f32_mul x 32767\<bar> < 1" if "\<bar>x\<bar> \<le> 1" for x
    using to_pcm16_in_range [OF that] trunc_near [of "f32_mul x 32767"] by simp
  have d: "sint (to_pcm16 x) = trunc (f32_mul x 32767) - 65536 \<and> sint (to_pcm16 x) < 0"
    if "32768 \<le> x * 32767 \<and> x * 32767 \<le> 65535" for x
    using that to_pcm16_wraps_down [of x] by simp
  have e: "sint (to_pcm16 x) = trunc (f32_mul x 32767) + 65536 \<and> 0 < sint (to_pcm16 x)"
    if "- 65535 \<le> x * 32767 \<and> x * 32767 \<le> - 32769" for x
    using that to_pcm16_wraps_up [of x] by simp
  from a b c d e sint_to_pcm16 show ?thesis by blast
qed


theorem saved_pcm_samples_witness:
  "start_recording ex_recorder None ex_env =
     (Inr ''recordings/recording_20240309_103015.wav'', snd (start_recording ex_recorder None ex_env)) \<and>
   \<not> write_fails ex_stop \<and>
   (\<exists>s'. stop_recording (ex_session None
        [Audio chunk_c False, Drain, Drain, Audio chunk_b False, Audio chunk_d False]) ex_stop =
      Some (Inr ''recordings/recording_20240309_103015.wav'', s') \<and>
      frames s' = [chunk_c, chunk_b, chunk_d] \<and>
      concat (concat (frames s')) = [0, 1 / 4, - 1, 3 / 2, 1, - (3 / 2)] \<and>
      \<bar>1 / 4 :: rat\<bar> \<le> 1 \<and>
      (32768 :: rat) \<le> 3 / 2 * 32767 \<and> (3 / 2 * 32767 :: rat) \<le> 65535 \<and>
      (- 65535 :: rat) \<le> - (3 / 2) * 32767 \<and> (- (3 / 2) * 32767 :: rat) \<le> - 32769 \<and>
      map_option pcm (files s' ''recordings/recording_20240309_103015.wav'') =
        Some [0, 8191, - 32767, - 16386, 32767, 16386] \<and>
      sint (to_pcm16 (1 / 4)) = trunc (f32_mul (1 / 4) 32767) \<and>
      sint (to_pcm16 (3 / 2)) = trunc (f32_mul (3 / 2) 32767) - 65536 \<and>
      sint (to_pcm16 (- (3 / 2))) = trunc (f32_mul (- (3 / 2)) 32767) + 65536)"
proof -
  let ?es = "[Audio chunk_c False, Drain, Drain, Audio chunk_b False, Audio chunk_d False]"
  let ?p = "''recordings/recording_20240309_103015.wav''"
  have w: "\<not> write_fails ex_stop" by (simp add: ex_defs)
  have f: "map_option (frames \<circ> snd) (stop_recording (ex_session None ?es) ex_stop) =
     Some [chunk_c, chunk_b, chunk_d]"
    by (simp add: ex_defs op_defs join.simps)
  from saved_pcm_samples [OF ex_start [of None] w, where es = ?es]
  obtain s' where r: "stop_recording (run (snd (start_recording ex_recorder None ex_env)) ?es) ex_stop =
      Some (Inr ?p, s')"
    and fl: "frames s' \<noteq> [] \<longrightarrow>
      ((\<forall>x \<in> set (concat (concat (frames s'))). \<bar>x\<bar> < 65536) \<longrightarrow>
         map_option pcm (files s' ?p) = Some (map to_pcm16 (concat (concat (frames s'))))) \<and>
      (\<forall>x \<in> set (concat (concat (frames s'))). \<bar>x\<bar> \<le> 1 \<longrightarrow>
         sint (to_pcm16 x) = trunc (f32_mul x 32767)) \<and>
      (\<forall>x \<in> set (concat (concat (frames s'))).
         32768 \<le> x * 32767 \<and> x * 32767 \<le> 65535 \<longrightarrow>
         sint (to_pcm16 x) = trunc (f32_mul x 32767) - 65536) \<and>
      (\<forall>x \<in> set (concat (concat (frames s'))).
         - 65535 \<le> x * 32767 \<and> x * 32767 \<le> - 32769 \<longrightarrow>
         sint (to_pcm16 x) = trunc (f32_mul x 32767) + 65536)"
    by blast
  from f r have fr: "frames s' = [chunk_c, chunk_b, chunk_d]" by (simp add: ex_session_def)
  have m: "concat (concat (frames s')) = [0, 1 / 4, - 1, 3 / 2, 1, - (3 / 2)]"
    unfolding fr by (simp add: chunk_c_def chunk_b_def chunk_d_def)
  have small: "\<forall>x \<in> set (concat (concat (frames s'))). \<bar>x\<bar> < 65536"
    unfolding m by simp
  from fl fr small have "map_option pcm (files s' ?p) = Some (map to_pcm16 (concat (concat (frames s'))))"
    by simp
  then have p: "map_option pcm (files s' ?p) = Some [0, 8191, - 32767, - 16386, 32767, 16386]"
    unfolding m by (simp add: to_pcm16_values)
  from fl fr have q: "sint (to_pcm16 (1 / 4)) = trunc (f32_mul (1 / 4) 32767)"
    "sint (to_pcm16 (3 / 2)) = trunc (f32_mul (3 / 2) 32767) - 65536"
    "sint (to_pcm16 (- (3 / 2))) = trunc (f32_mul (- (3 / 2)) 32767) + 65536"
    unfolding m by simp_all
  have s: "stop_recording (ex_session None ?es) ex_stop = Some (Inr ?p, s')"
    using r by (simp only: ex_session_def)
  have "stop_recording (ex_session None ?es) ex_stop = Some (Inr ?p, s') \<and>
      frames s' = [chunk_c, chunk_b, chunk_d] \<and>
      concat (concat (frames s')) = [0, 1 / 4, - 1, 3 / 2, 1, - (3 / 2)] \<and>
      \<bar>1 / 4 :: rat\<bar> \<le> 1 \<and>
      (32768 :: rat) \<le> 3 / 2 * 32767 \<and> (3 / 2 * 32767 :: rat) \<le> 65535 \<and>
      (- 65535 :: rat) \<le> - (3 / 2) * 32767 \<and> (- (3 / 2) * 32767 :: rat) \<le> - 32769 \<and>
      map_option pcm (files s' ?p) = Some [0, 8191, - 32767, - 16386, 32767, 16386] \<and>
      sint (to_pcm16 (1 / 4)) = trunc (f32_mul (1 / 4) 32767) \<and>
      sint (to_pcm16 (3 / 2)) = trunc (f32_mul (3 / 2) 32767) - 65536 \<and>
      sint (to_pcm16 (- (3 / 2))) = trunc (f32_mul (- (3 / 2)) 32767) + 65536"
    using s fr m p q by simp
  then show ?thesis using w ex_start [of None] by blast
qed

text \<open>
  Against C3 as stated: a session records the samples 0, 1/4, -1, 3/2 and 1. The
  sample 1/4 (product 8191.75) is written as 8191, not the rounded 8192; the sample
  3/2 (product 49150.5) is written as -16386, not the clipped 32767.
\<close>

theorem samples_truncated_and_wrapped:
  "map_option (map sint \<circ> pcm) (files ex_after_loud ''recordings/recording_20240309_103015.wav'') =
     Some [0, 8191, - 32767, - 16386, 32767] \<and>
   frames ex_after_loud = [chunk_c, chunk_b] \<and>
   map spec_pcm16 (concat (concat [chunk_c, chunk_b])) = [0, 8192, - 32767, 32767, 32767]"
  by (simp add: ex_defs op_defs join.simps to_pcm16_values spec_pcm16_values)

end
